theory Spec2Isabelle
  imports Main "HOL-Library.AList"
begin

text \<open>
  The core of ChipChat, the class of \<open>lib/chipchat.js\<close>: the conditional matcher, the
  registration of text triggers and reply listeners, the actions object, and the path of a
  webhook payload from \<open>ingest\<close> through the receive pipeline and \<open>_handleEvent\<close> to
  \<open>_handleMessage\<close>. The REST client, the server, the event bus and the packages the
  class requires are outside; \<open>mixin\<close>, \<open>module\<close>, \<open>on\<close>, \<open>removeTextListener\<close> and
  \<open>conversation\<close> are not needed for the properties proved here.
\<close>

section \<open>JavaScript values\<close>

text \<open>
  The bot works on parsed JSON payloads, on the option and conditional objects of its
  callers, and on the objects it builds itself. One datatype covers them. Numbers are
  the integers (fractions and NaN are outside the model). A regular expression is
  determined by its source text; what it accepts is decided by the engine, a parameter
  of the model. A function value carries its name only.
  An object is an association list from property names to values; the first entry
  for a key is the one that counts.
\<close>

datatype jsval =
    JUndefined
  | JNull
  | JBool bool
  | JNum int
  | JStr string
  | JArr "jsval list"
  | JObj "(string \<times> jsval) list"
  | JRegExp string
  | JFun string

datatype error = TypeError

text \<open>ToBoolean: what an \<open>if\<close>, \<open>!\<close>, \<open>&&\<close> or \<open>||\<close> sees.\<close>

fun truthy :: "jsval \<Rightarrow> bool" where
  "truthy JUndefined = False"
| "truthy JNull = False"
| "truthy (JBool b) = b"
| "truthy (JNum n) = (n \<noteq> 0)"
| "truthy (JStr s) = (s \<noteq> [])"
| "truthy _ = True"

fun nullish :: "jsval \<Rightarrow> bool" where
  "nullish JUndefined = True"
| "nullish JNull = True"
| "nullish _ = False"

text \<open>The decimal digits of a number: the name of an array index.\<close>

fun digits :: "nat \<Rightarrow> string" where
  "digits n = (if n < 10 then [''0123456789'' ! n]
               else digits (n div 10) @ [''0123456789'' ! (n mod 10)])"

text \<open>The index below \<open>n\<close> that a property name denotes.\<close>

definition index_of_key :: "string \<Rightarrow> nat \<Rightarrow> nat option" where
  "index_of_key k n = find (\<lambda>i. digits i = k) [0..<n]"

text \<open>
  What every object inherits from \<open>Object.prototype\<close>: the prototype itself under
  \<open>__proto__\<close>, and its functions.
\<close>

definition object_prototype :: "string \<Rightarrow> jsval" where
  "object_prototype k =
     (if k = ''__proto__'' then JObj []
      else if k = ''constructor'' then JFun ''Object''
      else if k \<in> set [''hasOwnProperty'', ''isPrototypeOf'', ''propertyIsEnumerable'',
                        ''toLocaleString'', ''toString'', ''valueOf'',
                        ''__defineGetter__'', ''__defineSetter__'',
                        ''__lookupGetter__'', ''__lookupSetter__'']
      then JFun k
      else JUndefined)"

text \<open>
  Reading the property \<open>k\<close> of a value that is neither \<open>undefined\<close> nor \<open>null\<close>: an own
  entry of an object, or what the object inherits from \<open>Object.prototype\<close>; the length and
  the elements of an array; the length and the characters of a string. The methods that
  arrays, strings, numbers, booleans, functions and regular expressions get from their own
  prototypes are not read as data; where the source calls one, there is a function for
  that call. Assigning to the key \<open>__proto__\<close> is not covered.
\<close>

fun field :: "jsval \<Rightarrow> string \<Rightarrow> jsval" where
  "field (JObj kvs) k = (case map_of kvs k of None \<Rightarrow> object_prototype k | Some v \<Rightarrow> v)"
| "field (JArr xs) k =
     (if k = ''length'' then JNum (int (length xs))
      else case index_of_key k (length xs) of
             None \<Rightarrow> object_prototype k
           | Some i \<Rightarrow> xs ! i)"
| "field (JStr s) k =
     (if k = ''length'' then JNum (int (length s))
      else case index_of_key k (length s) of
             None \<Rightarrow> JUndefined
           | Some i \<Rightarrow> JStr [s ! i])"
| "field (JRegExp src) k = object_prototype k"
| "field (JFun name) k = object_prototype k"
| "field _ k = JUndefined"

text \<open>\<open>v.k\<close> and \<open>v[k]\<close>: reading a property of \<open>undefined\<close> or \<open>null\<close> throws.\<close>

definition get_prop :: "jsval \<Rightarrow> string \<Rightarrow> error + jsval" where
  "get_prop v k = (if nullish v then Inl TypeError else Inr (field v k))"

text \<open>Strict equality \<open>===\<close>: by value on primitives, by reference on everything
  else. The objects compared in this program come from different parses or calls, so two
  of them are never the same reference.\<close>

fun strict_eq :: "jsval \<Rightarrow> jsval \<Rightarrow> bool" where
  "strict_eq JUndefined JUndefined = True"
| "strict_eq JNull JNull = True"
| "strict_eq (JBool a) (JBool b) = (a = b)"
| "strict_eq (JNum a) (JNum b) = (a = b)"
| "strict_eq (JStr a) (JStr b) = (a = b)"
| "strict_eq _ _ = False"

subsection \<open>ToString\<close>

definition show_int :: "int \<Rightarrow> string" where
  "show_int i = (if i < 0 then CHR ''-'' # digits (nat (- i)) else digits (nat i))"

fun join :: "string \<Rightarrow> string list \<Rightarrow> string" where
  "join sep [] = []"
| "join sep [x] = x"
| "join sep (x # y # ys) = x @ sep @ join sep (y # ys)"

text \<open>String conversion, as a template literal and a computed property key do it.\<close>

fun to_string :: "jsval \<Rightarrow> string" where
  "to_string JUndefined = ''undefined''"
| "to_string JNull = ''null''"
| "to_string (JBool b) = (if b then ''true'' else ''false'')"
| "to_string (JNum n) = show_int n"
| "to_string (JStr s) = s"
| "to_string (JArr xs) = join '','' (map (\<lambda>x. if nullish x then [] else to_string x) xs)"
| "to_string (JObj kvs) = ''[object Object]''"
| "to_string (JRegExp src) = src"
| "to_string (JFun name) = ''function '' @ name @ ''() { [native code] }''"

section \<open>The environment\<close>

text \<open>
  What the module requires from outside is a parameter: the regular expression engine
  (\<open>RegExp.prototype.test\<close>, and whether \<open>exec\<close> finds a match),
  \<open>String.prototype.toUpperCase\<close>, \<open>getSignature\<close> of
  \<open>./utils\<close> applied to the serialized payload, \<open>jwt.decode\<close>, the \<open>SECRET\<close> variable
  of the process environment, and the behaviour of the receive steps a caller installs.
  Regular expressions are taken without the \<open>g\<close> and \<open>y\<close> flags, so that a test does not
  depend on the tests before it.
\<close>

datatype step_outcome = Next | NextErr jsval | Abort

record env =
  regexp_test :: "string \<Rightarrow> jsval \<Rightarrow> bool"
  toUpperCase :: "string \<Rightarrow> string"
  getSignature :: "jsval \<Rightarrow> jsval \<Rightarrow> string"
  jwt_decode :: "jsval \<Rightarrow> jsval"
  env_SECRET :: jsval
  user_step :: "nat \<Rightarrow> jsval \<Rightarrow> step_outcome"

section \<open>The conditional matcher\<close>

text \<open>\<open>matcher(value, test)\<close>.\<close>

fun matcher :: "env \<Rightarrow> jsval \<Rightarrow> jsval \<Rightarrow> bool" where
  "matcher E v (JStr s) = (v = JStr s)"
| "matcher E v (JNum n) = (v = JNum n)"
| "matcher E v (JBool b) = (v = JBool b)"
| "matcher E v (JArr ts) = foldl (\<lambda>acc curr. if matcher E v curr then True else acc) False ts"
| "matcher E v (JRegExp src) = regexp_test E src v"
| "matcher E v _ = False"

text \<open>\<open>current.startsWith('@')\<close> and \<open>current.replace(/^@/, '')\<close>.\<close>

definition starts_at :: "string \<Rightarrow> bool" where
  "starts_at k = (case k of [] \<Rightarrow> False | c # _ \<Rightarrow> c = CHR ''@'')"

definition strip_at :: "string \<Rightarrow> string" where
  "strip_at k = (case k of [] \<Rightarrow> [] | c # rest \<Rightarrow> if c = CHR ''@'' then rest else k)"

text \<open>The third test of the reducer: \<open>c.meta && matcher(c.meta[current], ...)\<close>.\<close>

definition meta_test :: "env \<Rightarrow> jsval \<Rightarrow> string \<Rightarrow> jsval \<Rightarrow> error + bool" where
  "meta_test E c current test =
     (case get_prop c ''meta'' of
        Inl e \<Rightarrow> Inl e
      | Inr meta \<Rightarrow>
          if truthy meta then
            (case get_prop meta current of
               Inl e \<Rightarrow> Inl e
             | Inr v \<Rightarrow> Inr (matcher E v test))
          else Inr False)"

text \<open>The reducer of \<open>match\<close>, with \<open>conditionals\<close> the entries of the conditionals object.\<close>

definition reducer ::
  "env \<Rightarrow> jsval \<Rightarrow> jsval \<Rightarrow> (string \<times> jsval) list \<Rightarrow> bool \<Rightarrow> string \<Rightarrow> error + bool" where
  "reducer E c m conditionals accumulator current =
     (if accumulator then
        (case get_prop m current of
           Inl e \<Rightarrow> Inl e
         | Inr mv \<Rightarrow>
             if truthy mv \<and> matcher E mv (field (JObj conditionals) current) then Inr True
             else if starts_at current then
               (case get_prop c (strip_at current) of
                  Inl e \<Rightarrow> Inl e
                | Inr cv \<Rightarrow>
                    if matcher E cv (field (JObj conditionals) current) then Inr True
                    else meta_test E c current (field (JObj conditionals) current))
             else meta_test E c current (field (JObj conditionals) current))
      else Inr False)"

text \<open>\<open>Array.prototype.reduce\<close> with a callback that may throw.\<close>

fun reduce_keys ::
  "env \<Rightarrow> jsval \<Rightarrow> jsval \<Rightarrow> (string \<times> jsval) list \<Rightarrow> string list \<Rightarrow> bool \<Rightarrow> error + bool" where
  "reduce_keys E c m conditionals [] acc = Inr acc"
| "reduce_keys E c m conditionals (k # ks) acc =
     (case reducer E c m conditionals acc k of
        Inl e \<Rightarrow> Inl e
      | Inr acc' \<Rightarrow> reduce_keys E c m conditionals ks acc')"

definition object_keys :: "(string \<times> jsval) list \<Rightarrow> string list" where
  "object_keys kvs = map fst kvs"

definition match :: "env \<Rightarrow> jsval \<Rightarrow> jsval \<Rightarrow> (string \<times> jsval) list \<Rightarrow> error + bool" where
  "match E c m conditionals =
     (if length (object_keys conditionals) \<noteq> 0
      then reduce_keys E c m conditionals (object_keys conditionals) True
      else Inr True)"

section \<open>The bot\<close>

text \<open>
  A handler is what a caller passes in: a function of its own, known here by a number, or
  the name of a registered callback. A callback is what the bot stores and calls: the
  handler as it is, the wrapper that \<open>onText\<close> puts around a handler when conditionals
  are given, the wrapper that \<open>ask\<close> registers as a reply listener (it holds the
  listener's id and the conversation id), or a value that is no function and was stored
  all the same.
  A function of the caller is taken to return normally and to leave the bot alone;
  the call itself is recorded.
\<close>

datatype handler = UserFn nat | Named string

datatype callback =
    Plain handler
  | Conditional "(string \<times> jsval) list" handler
  | AskReply nat jsval handler
  | NotCallable jsval

datatype origin = Trigger | Reply

text \<open>
  What the bot does to the outside, in order: \<open>this.emit(name, ...args)\<close>, a call of a
  caller's function (for a text trigger or for a reply listener), a receive step of the
  caller being run, \<open>organizations.get\<close> being started, and \<open>command(text)\<close> sent to a
  conversation. The listeners of the event bus are run by the bus and are not part of
  the model (the constructor's own listeners are the \<open>debug\<close> line for \<open>error\<close> and the
  cache refresh for \<open>conversation.update\<close>, an event that plays no part in the properties
  below).
\<close>

datatype event =
    Emit string "jsval list"
  | Call origin nat "jsval list"
  | Step nat jsval
  | Fetch jsval
  | Command jsval string

datatype step = IgnoreSelf | IgnoreBots | UserStep nat

record text_listener =
  tl_regexp :: jsval
  tl_callback :: callback

record reply_listener =
  rl_id :: nat
  rl_chatId :: jsval
  rl_messageId :: jsval
  rl_callback :: callback

record bot =
  token :: jsval
  secret :: jsval
  auth :: jsval
  preloadOrganizations :: bool
  onlyFirstMatch :: bool
  ignoreBots :: bool
  ignoreSelf :: bool
  receive :: "step list"
  conversations :: "(string \<times> jsval) list"
  organizations :: "(string \<times> jsval) list"
  registeredCallbacks :: "(string \<times> nat) list"
  textRegexpCallbacks :: "text_listener list"
  replyListenerId :: nat
  replyListeners :: "reply_listener list"
  trace :: "event list"

subsection \<open>Running code that may throw\<close>

text \<open>
  A method of the bot takes the bot and returns the bot as the method left it, with
  either a result or the error it threw.
\<close>

definition ret :: "'a \<Rightarrow> bot \<Rightarrow> (error + 'a) \<times> bot" where
  "ret x b = (Inr x, b)"

definition eval :: "error + 'a \<Rightarrow> bot \<Rightarrow> (error + 'a) \<times> bot" where
  "eval r b = (r, b)"

definition andThen ::
  "(bot \<Rightarrow> (error + 'a) \<times> bot) \<Rightarrow> ('a \<Rightarrow> bot \<Rightarrow> (error + 'b) \<times> bot) \<Rightarrow> bot \<Rightarrow> (error + 'b) \<times> bot" where
  "andThen m f b = (case m b of (Inl e, b') \<Rightarrow> (Inl e, b') | (Inr x, b') \<Rightarrow> f x b')"

definition record_event :: "event \<Rightarrow> bot \<Rightarrow> bot" where
  "record_event ev b = b\<lparr>trace := trace b @ [ev]\<rparr>"

definition emit :: "string \<Rightarrow> jsval list \<Rightarrow> bot \<Rightarrow> bot" where
  "emit name args b = record_event (Emit name args) b"

fun path :: "jsval \<Rightarrow> string list \<Rightarrow> error + jsval" where
  "path v [] = Inr v"
| "path v (k # ks) = (case get_prop v k of Inl e \<Rightarrow> Inl e | Inr w \<Rightarrow> path w ks)"

definition js_or :: "jsval \<Rightarrow> jsval \<Rightarrow> jsval" where
  "js_or a b = (if truthy a then a else b)"

subsection \<open>The caches\<close>

text \<open>\<open>cache[key]\<close> and \<open>cache[key] = value\<close>, the key converted to a property name.\<close>

definition cache_get :: "(string \<times> jsval) list \<Rightarrow> jsval \<Rightarrow> jsval" where
  "cache_get cache key = field (JObj cache) (to_string key)"

definition cache_set :: "(string \<times> jsval) list \<Rightarrow> jsval \<Rightarrow> jsval \<Rightarrow> (string \<times> jsval) list" where
  "cache_set cache key v = AList.update (to_string key) v cache"

subsection \<open>Registration\<close>

definition registerCallback :: "string \<Rightarrow> nat \<Rightarrow> bot \<Rightarrow> bot" where
  "registerCallback name fn b =
     b\<lparr>registeredCallbacks := AList.update name fn (registeredCallbacks b)\<rparr>"

definition use :: "nat list \<Rightarrow> bot \<Rightarrow> bot" where
  "use fns b = b\<lparr>receive := receive b @ map UserStep fns\<rparr>"

text \<open>
  The second argument of \<open>onText\<close> is a handler in \<open>onText(triggers, callback)\<close> and the
  conditionals in \<open>onText(triggers, conditionals, callback)\<close>; the third argument may be
  missing. The source stores the second argument as it is unless the third is truthy, and
  the wrapper around the third otherwise. As conditionals, a function has no keys and a
  string has its indices.
\<close>

datatype second = Callback handler | Conditionals "(string \<times> jsval) list"

fun handler_truthy :: "handler \<Rightarrow> bool" where
  "handler_truthy (UserFn n) = True"
| "handler_truthy (Named name) = (name \<noteq> [])"

fun own_entries :: "handler \<Rightarrow> (string \<times> jsval) list" where
  "own_entries (UserFn n) = []"
| "own_entries (Named name) =
     zip (map digits [0..<length name]) (map (\<lambda>c. JStr [c]) name)"

fun as_stored :: "second \<Rightarrow> callback" where
  "as_stored (Callback h) = Plain h"
| "as_stored (Conditionals cs) = NotCallable (JObj cs)"

fun as_conditionals :: "second \<Rightarrow> (string \<times> jsval) list" where
  "as_conditionals (Callback h) = own_entries h"
| "as_conditionals (Conditionals cs) = cs"

definition onText :: "jsval \<Rightarrow> second \<Rightarrow> handler option \<Rightarrow> bot \<Rightarrow> bot" where
  "onText triggers conditionals callbackProto b =
     (let triggers' = (case triggers of JArr ts \<Rightarrow> ts | t \<Rightarrow> [t]);
          callback = (case callbackProto of
                        None \<Rightarrow> as_stored conditionals
                      | Some h \<Rightarrow>
                          if handler_truthy h then Conditional (as_conditionals conditionals) h
                          else as_stored conditionals)
      in b\<lparr>textRegexpCallbacks := textRegexpCallbacks b
              @ map (\<lambda>regexp. \<lparr>tl_regexp = regexp, tl_callback = callback\<rparr>) triggers'\<rparr>)"

definition onReply :: "jsval \<Rightarrow> jsval \<Rightarrow> callback \<Rightarrow> bot \<Rightarrow> nat \<times> bot" where
  "onReply chatId messageId callback b =
     (let id = replyListenerId b + 1
      in (id, b\<lparr>replyListenerId := id,
                replyListeners := replyListeners b @
                  [\<lparr>rl_id = id, rl_chatId = chatId, rl_messageId = messageId,
                    rl_callback = callback\<rparr>]\<rparr>))"

text \<open>\<open>findIndex\<close> and \<open>splice(index, 1)\<close>: the first listener with the id goes.\<close>

fun remove_first :: "('a \<Rightarrow> bool) \<Rightarrow> 'a list \<Rightarrow> 'a list" where
  "remove_first P [] = []"
| "remove_first P (x # xs) = (if P x then xs else x # remove_first P xs)"

definition removeReplyListener :: "nat \<Rightarrow> bot \<Rightarrow> reply_listener option \<times> bot" where
  "removeReplyListener replyListenerId' b =
     (case find (\<lambda>replyListener. rl_id replyListener = replyListenerId') (replyListeners b) of
        None \<Rightarrow> (None, b)
      | Some l \<Rightarrow>
          (Some l, b\<lparr>replyListeners :=
             remove_first (\<lambda>replyListener. rl_id replyListener = replyListenerId') (replyListeners b)\<rparr>))"

section \<open>The actions object\<close>

fun entries :: "jsval \<Rightarrow> (string \<times> jsval) list" where
  "entries (JObj kvs) = kvs"
| "entries _ = []"

text \<open>\<open>Object.assign(target, source)\<close> on the entries: a key of the source replaces
  the target's value or is added.\<close>

definition object_assign ::
  "(string \<times> jsval) list \<Rightarrow> (string \<times> jsval) list \<Rightarrow> (string \<times> jsval) list" where
  "object_assign target source = foldl (\<lambda>acc kv. AList.update (fst kv) (snd kv) acc) target source"

text \<open>\<open>obj[k] = v\<close> on an object.\<close>

fun set_field :: "string \<Rightarrow> jsval \<Rightarrow> jsval \<Rightarrow> jsval" where
  "set_field k v (JObj kvs) = JObj (AList.update k v kvs)"
| "set_field k v other = other"

text \<open>
  \<open>_getActionsObject(convId)\<close>. The operations of the object are closures over
  \<open>convId\<close> and the bot; the object holds a function value for each, and the model
  has a function for those that the dispatch itself calls (\<open>get\<close> below).
  The key of the organization lookup is \<open>this._conversations[convId]\<close>, as the source
  has it.
\<close>

definition getActionsObject :: "jsval \<Rightarrow> bot \<Rightarrow> jsval \<times> bot" where
  "getActionsObject convId b =
     (if \<not> truthy convId \<or> \<not> truthy (cache_get (conversations b) convId) then
        (JObj [],
         emit ''error'' [JObj [(''message'', JStr (''missing conv '' @ to_string convId))]] b)
      else
        (JObj (object_assign
           (object_assign [] (entries (js_or (cache_get (conversations b) convId) (JObj []))))
           [(''organization'',
               js_or (cache_get (organizations b) (cache_get (conversations b) convId))
                     (field (js_or (cache_get (conversations b) convId) (JObj [])) ''organization'')),
            (''say'', JFun ''say''),
            (''accept'', JFun ''accept''),
            (''join'', JFun ''join''),
            (''leave'', JFun ''leave''),
            (''assign'', JFun ''assign''),
            (''notify'', JFun ''notify''),
            (''set'', JFun ''set''),
            (''get'', JFun ''get''),
            (''ask'', JFun ''ask'')]),
         b))"

text \<open>\<open>key.match(/^@(.*)$/)\<close>: the text after a leading \<open>@\<close>, when no line break follows it.\<close>

definition at_capture :: "string \<Rightarrow> string option" where
  "at_capture key =
     (case key of
        [] \<Rightarrow> None
      | c # rest \<Rightarrow>
          if c = CHR ''@'' \<and> CHR 0x0A \<notin> set rest \<and> CHR 0x0D \<notin> set rest
          then Some rest else None)"

text \<open>The \<open>get\<close> closure of the actions object built for \<open>convId\<close>.\<close>

definition actions_get :: "jsval \<Rightarrow> string \<Rightarrow> bot \<Rightarrow> jsval" where
  "actions_get convId key b =
     (let conversation = js_or (cache_get (conversations b) convId) (JObj []);
          from_meta = field (js_or (field conversation ''meta'') (JObj [])) key
      in case at_capture key of
           None \<Rightarrow> from_meta
         | Some name \<Rightarrow>
             if field conversation name \<noteq> JUndefined then field conversation name
             else from_meta)"

text \<open>The callback that \<open>ask\<close> hands to \<open>send\<close>, called with the error or the sent message.\<close>

definition ask_sent :: "jsval \<Rightarrow> handler \<Rightarrow> jsval \<Rightarrow> jsval \<Rightarrow> bot \<Rightarrow> (error + jsval) \<times> bot" where
  "ask_sent convId cb e msg b =
     (if truthy e then (Inr JUndefined, emit ''error'' [e] b)
      else
        (case get_prop (auth b) ''user'' of
           Inl err \<Rightarrow> (Inl err, b)
         | Inr user \<Rightarrow>
             (case get_prop msg ''id'' of
                Inl err \<Rightarrow> (Inl err, b)
              | Inr msgId \<Rightarrow>
                  (let b1 = record_event
                              (Command convId (''/set _asked'' @ to_string user @ '' '' @ to_string msgId)) b;
                       id = replyListenerId b1 + 1
                   in (Inr (JNum (int id)),
                       snd (onReply convId msgId (AskReply id convId cb) b1))))))"

section \<open>Calling callbacks\<close>

definition arg :: "jsval list \<Rightarrow> nat \<Rightarrow> jsval" where
  "arg args i = (if i < length args then args ! i else JUndefined)"

text \<open>Calling what the caller passed in: a string is not callable.\<close>

fun call_handler :: "origin \<Rightarrow> handler \<Rightarrow> jsval list \<Rightarrow> bot \<Rightarrow> (error + unit) \<times> bot" where
  "call_handler og (UserFn n) args b = (Inr (), record_event (Call og n args) b)"
| "call_handler og (Named name) args b = (Inl TypeError, b)"

text \<open>\<open>this._registeredCallbacks[name](...)\<close>.\<close>

definition call_registered :: "origin \<Rightarrow> string \<Rightarrow> jsval list \<Rightarrow> bot \<Rightarrow> (error + unit) \<times> bot" where
  "call_registered og name args b =
     (case map_of (registeredCallbacks b) name of
        None \<Rightarrow> (Inl TypeError, b)
      | Some n \<Rightarrow> call_handler og (UserFn n) args b)"

text \<open>
  Calling a stored callback with \<open>args\<close>: the handler itself; the wrapper of \<open>onText\<close>,
  \<open>(m, c) => { if (match(c, m, conditionals)) callbackProto(m, c) }\<close>; the wrapper of
  \<open>ask\<close>, which removes its listener, rebuilds the actions object and calls \<open>cb\<close>,
  through the registry when \<open>cb\<close> is a non-empty string; a value that is no function
  throws.
\<close>

fun invoke :: "env \<Rightarrow> origin \<Rightarrow> callback \<Rightarrow> jsval list \<Rightarrow> bot \<Rightarrow> (error + unit) \<times> bot" where
  "invoke E og (Plain h) args b = call_handler og h args b"
| "invoke E og (Conditional conditionals h) args b =
     (case match E (arg args 1) (arg args 0) conditionals of
        Inl e \<Rightarrow> (Inl e, b)
      | Inr matched \<Rightarrow>
          if matched then call_handler og h [arg args 0, arg args 1] b else (Inr (), b))"
| "invoke E og (AskReply listenerId convId cb) args b =
     (let b1 = snd (removeReplyListener listenerId b);
          c = fst (getActionsObject convId b1);
          b2 = snd (getActionsObject convId b1)
      in case cb of
           Named name \<Rightarrow>
             if name \<noteq> [] then call_registered og name [arg args 0, c] b2
             else call_handler og cb [arg args 0, c] b2
         | UserFn n \<Rightarrow> call_handler og cb [arg args 0, c] b2)"
| "invoke E og (NotCallable v) args b = (Inl TypeError, b)"

section \<open>Dispatch of a message\<close>

subsection \<open>String methods\<close>

definition startsWith :: "string \<Rightarrow> string \<Rightarrow> bool" where
  "startsWith s p = (take (length p) s = p)"

text \<open>\<open>v.startsWith(p)\<close> on a value: only a string has the method.\<close>

fun starts_with :: "jsval \<Rightarrow> string \<Rightarrow> error + bool" where
  "starts_with (JStr s) p = Inr (startsWith s p)"
| "starts_with _ p = Inl TypeError"

text \<open>\<open>v.toUpperCase()\<close> on a value: only a string has the method.\<close>

fun upper_case :: "env \<Rightarrow> jsval \<Rightarrow> error + string" where
  "upper_case E (JStr s) = Inr (toUpperCase E s)"
| "upper_case E _ = Inl TypeError"

fun contains :: "string \<Rightarrow> string \<Rightarrow> bool" where
  "contains [] p = (p = [])"
| "contains (c # cs) p = (startsWith (c # cs) p \<or> contains cs p)"

text \<open>\<open>xs.indexOf(x) !== -1\<close>: strict equality on the elements of an array, a substring
  search on a string; nothing else has the method.\<close>

fun index_of_found :: "jsval \<Rightarrow> jsval \<Rightarrow> error + bool" where
  "index_of_found (JArr xs) x = Inr (list_ex (\<lambda>y. strict_eq y x) xs)"
| "index_of_found (JStr s) x = Inr (contains s (to_string x))"
| "index_of_found _ x = Inl TypeError"

subsection \<open>Text triggers\<close>

definition qualifies :: "string \<Rightarrow> jsval \<Rightarrow> bool" where
  "qualifies type message =
     (type \<noteq> ''channel.notify''
      \<and> (strict_eq (field message ''type'') (JStr ''chat'')
         \<or> strict_eq (field message ''type'') (JStr ''postback''))
      \<and> truthy (field message ''text'')
      \<and> (strict_eq (field message ''role'') (JStr ''contact'')
         \<or> strict_eq (field message ''role'') (JStr ''agent'')))"

text \<open>\<open>regexp instanceof RegExp ? regexp.exec(text) : text.toUpperCase() === regexp.toUpperCase()\<close>,
  as a truth value.\<close>

definition trigger_result :: "env \<Rightarrow> jsval \<Rightarrow> jsval \<Rightarrow> error + bool" where
  "trigger_result E regexp text =
     (case regexp of
        JRegExp src \<Rightarrow> Inr (regexp_test E src text)
      | _ \<Rightarrow>
          (case upper_case E text of
             Inl e \<Rightarrow> Inl e
           | Inr t \<Rightarrow>
               (case upper_case E regexp of
                  Inl e \<Rightarrow> Inl e
                | Inr r \<Rightarrow> Inr (t = r))))"

text \<open>
  The \<open>some\<close> loop over \<open>_textRegexpCallbacks\<close>. It returns the actions object, on which
  it sets \<open>captured\<close>. No callback of the model changes the list of triggers, so the loop
  runs over the list as it was when the loop began.
\<close>

fun run_triggers ::
  "env \<Rightarrow> jsval \<Rightarrow> text_listener list \<Rightarrow> jsval \<Rightarrow> bot \<Rightarrow> (error + jsval) \<times> bot" where
  "run_triggers E message [] ctx b = (Inr ctx, b)"
| "run_triggers E message (t # ts) ctx b =
     (case trigger_result E (tl_regexp t) (field message ''text'') of
        Inl e \<Rightarrow> (Inl e, b)
      | Inr result \<Rightarrow>
          if \<not> result then run_triggers E message ts ctx b
          else
            (case invoke E Trigger (tl_callback t)
                    [message, set_field ''captured'' (JBool True) ctx] b of
               (Inl e, b') \<Rightarrow> (Inl e, b')
             | (Inr u, b') \<Rightarrow>
                 if onlyFirstMatch b' then (Inr (set_field ''captured'' (JBool True) ctx), b')
                 else run_triggers E message ts (set_field ''captured'' (JBool True) ctx) b'))"

subsection \<open>Reply listeners\<close>

text \<open>The body of the \<open>forEach\<close> for a listener of the conversation: a string is looked up
  in the registry, and the callback is called with the message.\<close>

definition call_reply :: "env \<Rightarrow> reply_listener \<Rightarrow> jsval \<Rightarrow> bot \<Rightarrow> (error + unit) \<times> bot" where
  "call_reply E reply message b =
     (case rl_callback reply of
        Plain (Named name) \<Rightarrow> call_registered Reply name [message] b
      | cb \<Rightarrow> invoke E Reply cb [message] b)"

text \<open>
  \<open>this._replyListeners.forEach\<close>: the length is read once, before the loop (\<open>n\<close> counts
  the indices still to visit); index \<open>k\<close> is visited when the array, as it is by then,
  still has an element there. A callback that removes a listener shortens the array
  under the loop.
\<close>

fun reply_loop :: "env \<Rightarrow> jsval \<Rightarrow> nat \<Rightarrow> nat \<Rightarrow> bool \<Rightarrow> bot \<Rightarrow> (error + bool) \<times> bot" where
  "reply_loop E message 0 k hasReplied b = (Inr hasReplied, b)"
| "reply_loop E message (Suc n) k hasReplied b =
     (if k < length (replyListeners b) then
        (if strict_eq (rl_chatId (replyListeners b ! k)) (field message ''conversation'') then
           (case call_reply E (replyListeners b ! k) message b of
              (Inl e, b') \<Rightarrow> (Inl e, b')
            | (Inr u, b') \<Rightarrow> reply_loop E message n (Suc k) True b')
         else reply_loop E message n (Suc k) hasReplied b)
      else reply_loop E message n (Suc k) hasReplied b)"

subsection \<open>The generic events\<close>

text \<open>The \<open>/assign\<close> notification: \<open>message.meta.users.indexOf(this.auth.user) !== -1\<close>.\<close>

definition assign_notify :: "jsval \<Rightarrow> jsval \<Rightarrow> bot \<Rightarrow> (error + unit) \<times> bot" where
  "assign_notify message ctx b =
     (if strict_eq (field message ''type'') (JStr ''command'')
         \<and> strict_eq (field message ''text'') (JStr ''/assign'') then
        (case path message [''meta'', ''users''] of
           Inl e \<Rightarrow> (Inl e, b)
         | Inr users \<Rightarrow>
             if nullish users then (Inl TypeError, b)
             else
               (case get_prop (auth b) ''user'' of
                  Inl e \<Rightarrow> (Inl e, b)
                | Inr user \<Rightarrow>
                    (case index_of_found users user of
                       Inl e \<Rightarrow> (Inl e, b)
                     | Inr found \<Rightarrow>
                         if found then (Inr (), emit ''notify'' [message, ctx] b)
                         else (Inr (), b))))
      else (Inr (), b))"

text \<open>A command whose text begins with \<open>>\<close>: \<open>/^>/.test(message.text)\<close>.\<close>

definition botcmd_notify :: "jsval \<Rightarrow> jsval \<Rightarrow> bot \<Rightarrow> (error + unit) \<times> bot" where
  "botcmd_notify message ctx b =
     (if strict_eq (field message ''type'') (JStr ''command'')
         \<and> startsWith (to_string (field message ''text'')) ''>''
      then (Inr (), emit ''notify'' [message, ctx] b)
      else (Inr (), b))"

definition mention_notify :: "jsval \<Rightarrow> jsval \<Rightarrow> bot \<Rightarrow> (error + unit) \<times> bot" where
  "mention_notify message ctx b =
     (if strict_eq (field message ''type'') (JStr ''mention'') \<and> truthy (field message ''meta'') then
        (case get_prop (auth b) ''user'' of
           Inl e \<Rightarrow> (Inl e, b)
         | Inr user \<Rightarrow>
             if strict_eq (field (field message ''meta'') ''targetUser'') user
             then (Inr (), emit ''notify'' [message, ctx] b)
             else (Inr (), b))
      else (Inr (), b))"

definition role_event :: "string \<Rightarrow> jsval \<Rightarrow> jsval \<Rightarrow> bot \<Rightarrow> (error + unit) \<times> bot" where
  "role_event type message ctx b =
     (if startsWith type ''message'' \<and> truthy (field message ''role'')
      then (Inr (), emit (type @ ''.'' @ to_string (field message ''role'')) [message, ctx] b)
      else (Inr (), b))"

text \<open>The body of \<open>if (!hasReplied)\<close>.\<close>

definition generic_emission :: "string \<Rightarrow> jsval \<Rightarrow> jsval \<Rightarrow> bot \<Rightarrow> (error + unit) \<times> bot" where
  "generic_emission type message ctx =
     andThen (\<lambda>b. ret () (emit type [message, ctx] (emit ''message'' [message, ctx] b)))
       (\<lambda>u. andThen (assign_notify message ctx)
         (\<lambda>u. andThen (botcmd_notify message ctx)
           (\<lambda>u. andThen (mention_notify message ctx)
             (\<lambda>u. role_event type message ctx))))"

subsection \<open>\<open>_handleMessage\<close>\<close>

text \<open>
  \<open>ctx.get(`_asked${this.auth.user}`)\<close>: the argument is evaluated (it reads
  \<open>this.auth.user\<close>), then \<open>ctx.get\<close> is called, which the empty actions object does not
  have. The closure belongs to the actions object built for \<open>message.conversation\<close>.
\<close>

definition questionAsked :: "jsval \<Rightarrow> jsval \<Rightarrow> bot \<Rightarrow> (error + jsval) \<times> bot" where
  "questionAsked message ctx b =
     (case get_prop (auth b) ''user'' of
        Inl e \<Rightarrow> (Inl e, b)
      | Inr user \<Rightarrow>
          (case field ctx ''get'' of
             JFun f \<Rightarrow> (Inr (actions_get (field message ''conversation'')
                                (''_asked'' @ to_string user) b), b)
           | _ \<Rightarrow> (Inl TypeError, b)))"

text \<open>What \<open>_handleMessage\<close> does with a qualifying message once the text triggers have
  run: the reply listeners, then the generic events unless a reply handler was called.\<close>

definition after_triggers :: "env \<Rightarrow> string \<Rightarrow> jsval \<Rightarrow> jsval \<Rightarrow> bot \<Rightarrow> (error + unit) \<times> bot" where
  "after_triggers E type message ctx =
     andThen (questionAsked message ctx)
       (\<lambda>asked.
          if truthy asked then
            andThen (\<lambda>b. reply_loop E message (length (replyListeners b)) 0 False b)
              (\<lambda>hasReplied.
                 if \<not> hasReplied then generic_emission type message ctx else ret ())
          else generic_emission type message ctx)"

definition handleMessage :: "env \<Rightarrow> string \<Rightarrow> jsval \<Rightarrow> bot \<Rightarrow> (error + unit) \<times> bot" where
  "handleMessage E type message =
     andThen (eval (get_prop message ''conversation''))
       (\<lambda>convId.
          andThen (\<lambda>b. ret (fst (getActionsObject convId b)) (snd (getActionsObject convId b)))
            (\<lambda>ctx.
               if qualifies type message then
                 andThen (\<lambda>b. run_triggers E message (textRegexpCallbacks b) ctx b)
                   (\<lambda>ctx'. after_triggers E type message ctx')
               else generic_emission type message ctx))"

section \<open>The receive pipeline\<close>

definition ignoreSelfMiddleware :: "jsval \<Rightarrow> bot \<Rightarrow> (error + step_outcome) \<times> bot" where
  "ignoreSelfMiddleware payload b =
     (case get_prop payload ''event'' of
        Inl e \<Rightarrow> (Inl e, b)
      | Inr event \<Rightarrow>
          if \<not> truthy event
          then (Inr Abort, emit ''error'' [JObj [(''message'', JStr ''Invalid payload'')]] b)
          else
            (case starts_with event ''message'' of
               Inl e \<Rightarrow> (Inl e, b)
             | Inr isMessage \<Rightarrow>
                 if isMessage then
                   (case path payload [''data'', ''message'', ''user''] of
                      Inl e \<Rightarrow> (Inl e, b)
                    | Inr user \<Rightarrow>
                        (case get_prop (auth b) ''user'' of
                           Inl e \<Rightarrow> (Inl e, b)
                         | Inr self \<Rightarrow>
                             if strict_eq user self then (Inr Abort, b) else (Inr Next, b)))
                 else (Inr Next, b)))"

definition ignoreBotsMiddleware :: "jsval \<Rightarrow> bot \<Rightarrow> (error + step_outcome) \<times> bot" where
  "ignoreBotsMiddleware payload b =
     (case get_prop payload ''event'' of
        Inl e \<Rightarrow> (Inl e, b)
      | Inr event \<Rightarrow>
          if \<not> truthy event
          then (Inr Abort, emit ''error'' [JObj [(''code'', JStr ''Invalid payload'')]] b)
          else
            (case starts_with event ''message'' of
               Inl e \<Rightarrow> (Inl e, b)
             | Inr isMessage \<Rightarrow>
                 if isMessage then
                   (case path payload [''data'', ''message'', ''role''] of
                      Inl e \<Rightarrow> (Inl e, b)
                    | Inr role \<Rightarrow>
                        if strict_eq role (JStr ''bot'') then (Inr Abort, b) else (Inr Next, b))
                 else (Inr Next, b)))"

fun run_step :: "env \<Rightarrow> step \<Rightarrow> jsval \<Rightarrow> bot \<Rightarrow> (error + step_outcome) \<times> bot" where
  "run_step E IgnoreSelf payload b = ignoreSelfMiddleware payload b"
| "run_step E IgnoreBots payload b = ignoreBotsMiddleware payload b"
| "run_step E (UserStep n) payload b = (Inr (user_step E n payload), record_event (Step n payload) b)"

text \<open>
  \<open>middleware.receive.run\<close> of the \<open>mware\<close> package: the steps run in the order of their
  registration; a step goes on by calling \<open>next()\<close>, ends the run with \<open>next(err)\<close>, or
  stops it by not calling \<open>next\<close>; what a step or the final callback throws is not
  caught. \<open>None\<close> is a run that was stopped, \<open>Some err\<close> the argument of the final callback.
\<close>

fun run_steps :: "env \<Rightarrow> step list \<Rightarrow> jsval \<Rightarrow> bot \<Rightarrow> (error + jsval option) \<times> bot" where
  "run_steps E [] payload b = (Inr (Some JNull), b)"
| "run_steps E (s # ss) payload b =
     (case run_step E s payload b of
        (Inl e, b') \<Rightarrow> (Inl e, b')
      | (Inr Next, b') \<Rightarrow> run_steps E ss payload b'
      | (Inr (NextErr err), b') \<Rightarrow>
          if truthy err then (Inr (Some err), b') else run_steps E ss payload b'
      | (Inr Abort, b') \<Rightarrow> (Inr None, b'))"

section \<open>\<open>_handleEvent\<close>\<close>

definition handleEvent :: "env \<Rightarrow> string \<Rightarrow> jsval \<Rightarrow> bot \<Rightarrow> (error + unit) \<times> bot" where
  "handleEvent E type event =
     andThen (\<lambda>b. run_steps E (receive b) event b)
       (\<lambda>done.
          case done of
            None \<Rightarrow> ret ()
          | Some err \<Rightarrow>
              if truthy err then
                (\<lambda>b. ret () (emit ''error''
                   [JObj [(''type'', JStr ''middleware''),
                          (''message'', JStr (''middleware receive processing error:  '' @ to_string err))]] b))
              else
                andThen (eval (get_prop event ''activity''))
                  (\<lambda>activity.
                     andThen (\<lambda>b. ret () (emit ''activity'' [activity] b))
                       (\<lambda>u.
                          if startsWith type ''message'' \<and> truthy (field event ''data'')
                             \<and> truthy (field (field event ''data'') ''message'')
                          then handleMessage E type (field (field event ''data'') ''message'')
                          else (\<lambda>b. ret () (emit type [event] b)))))"

section \<open>\<open>ingest\<close>\<close>

text \<open>
  \<open>ingest\<close> returns \<open>Some payload\<close> when it has started \<open>organizations.get\<close> for the
  payload and left the dispatch to the promise, \<open>None\<close> otherwise. The promise is
  settled later, on the bot as it is then, by \<open>settle\<close> below.
\<close>

definition ingest :: "env \<Rightarrow> jsval \<Rightarrow> jsval \<Rightarrow> bot \<Rightarrow> (error + jsval option) \<times> bot" where
  "ingest E payload signature b =
     (if truthy signature \<and> \<not> strict_eq (JStr (getSignature E payload (secret b))) signature then
        (Inr None,
         emit ''error'' [JObj [(''type'', JStr ''ingest''),
                               (''message'', JStr ''Message integrity check failed'')]] b)
      else if \<not> truthy payload \<or> \<not> truthy (field payload ''event'') then
        (Inr None,
         emit ''error'' [JObj [(''type'', JStr ''ingest''),
                               (''message'', JStr ''Invalid payload, missing event'')]] b)
      else
        (case starts_with (field payload ''event'') ''message'' of
           Inl e \<Rightarrow> (Inl e, b)
         | Inr isMessage \<Rightarrow>
             if isMessage then
               (if \<not> truthy (field payload ''data'')
                   \<or> \<not> truthy (field (field payload ''data'') ''conversation'')
                   \<or> \<not> truthy (field (field (field payload ''data'') ''conversation'') ''id'')
                then
                  (Inr None,
                   emit ''error'' [JObj [(''type'', JStr ''ingest''),
                                         (''message'', JStr ''Invalid payload, missing conversation'')]] b)
                else
                  (let conversation = field (field payload ''data'') ''conversation'';
                       b1 = b\<lparr>conversations :=
                               cache_set (conversations b) (field conversation ''id'') conversation\<rparr>
                   in if \<not> truthy (cache_get (organizations b1) (field conversation ''organization''))
                         \<and> preloadOrganizations b1
                      then (Inr (Some payload),
                            record_event (Fetch (field conversation ''organization'')) b1)
                      else
                        (case handleEvent E (to_string (field payload ''event'')) payload b1 of
                           (Inl e, b2) \<Rightarrow> (Inl e, b2)
                         | (Inr u, b2) \<Rightarrow> (Inr None, b2))))
             else if truthy (field payload ''activity'') then
               (case handleEvent E (to_string (field payload ''event'')) payload b of
                  (Inl e, b2) \<Rightarrow> (Inl e, b2)
                | (Inr u, b2) \<Rightarrow> (Inr None, b2))
             else (Inr None, b)))"

text \<open>
  How \<open>organizations.get\<close> ends: with the organization, or with an error (given as the
  text of \<open>err.toString()\<close>).
\<close>

datatype fetch_result = Resolved jsval | Rejected string

fun error_text :: "error \<Rightarrow> string" where
  "error_text TypeError = ''TypeError''"

text \<open>The \<open>then\<close> callback: cache the organization and dispatch.\<close>

definition organization_loaded :: "env \<Rightarrow> jsval \<Rightarrow> jsval \<Rightarrow> bot \<Rightarrow> (error + unit) \<times> bot" where
  "organization_loaded E payload org =
     andThen (eval (get_prop org ''id''))
       (\<lambda>orgId.
          andThen (\<lambda>b. ret () (b\<lparr>organizations := cache_set (organizations b) orgId org\<rparr>))
            (\<lambda>u. handleEvent E (to_string (field payload ''event'')) payload))"

text \<open>The \<open>catch\<close> callback.\<close>

definition organization_failed :: "jsval \<Rightarrow> string \<Rightarrow> bot \<Rightarrow> bot" where
  "organization_failed payload err b =
     emit ''error''
       [JObj [(''message'',
               JStr (''Could not load organization ''
                     @ to_string (field (field (field payload ''data'') ''conversation'') ''organization'')
                     @ '': '' @ err))]] b"

text \<open>\<open>.then(...).catch(...)\<close>: the \<open>catch\<close> callback also gets what the \<open>then\<close> callback throws.\<close>

fun settle :: "env \<Rightarrow> jsval \<Rightarrow> fetch_result \<Rightarrow> bot \<Rightarrow> bot" where
  "settle E payload (Resolved org) b =
     (case organization_loaded E payload org b of
        (Inl e, b') \<Rightarrow> organization_failed payload (error_text e) b'
      | (Inr u, b') \<Rightarrow> b')"
| "settle E payload (Rejected err) b = organization_failed payload err b"

section \<open>The constructor\<close>

record options =
  opt_token :: jsval
  opt_secret :: jsval
  opt_preloadOrganizations :: jsval
  opt_onlyFirstMatch :: jsval
  opt_ignoreBots :: jsval
  opt_ignoreSelf :: jsval
  opt_receive :: "nat list"

text \<open>\<open>typeof v === 'boolean' ? v : d\<close>.\<close>

fun boolean_or :: "jsval \<Rightarrow> bool \<Rightarrow> bool" where
  "boolean_or (JBool v) d = v"
| "boolean_or _ d = d"

text \<open>The \<open>auth\<close> property: set only when a token is given and \<open>jwt.decode\<close> returns
  something; destructuring the decoded payload throws when there is none.\<close>

definition decode_auth :: "env \<Rightarrow> jsval \<Rightarrow> error + jsval" where
  "decode_auth E tok =
     (if truthy tok then
        (if truthy (jwt_decode E tok) then
           (if nullish (field (jwt_decode E tok) ''payload'') then Inl TypeError
            else Inr (JObj
              [(''user'', field (field (jwt_decode E tok) ''payload'') ''_id''),
               (''organization'', field (field (jwt_decode E tok) ''payload'') ''organization''),
               (''iat'', field (field (jwt_decode E tok) ''payload'') ''iat''),
               (''exp'', field (field (jwt_decode E tok) ''payload'') ''exp'')]))
         else Inr JUndefined)
      else Inr JUndefined)"

definition ChipChat :: "env \<Rightarrow> options \<Rightarrow> error + bot" where
  "ChipChat E opts =
     (case decode_auth E (opt_token opts) of
        Inl e \<Rightarrow> Inl e
      | Inr a \<Rightarrow>
          Inr \<lparr> token = opt_token opts,
                secret = js_or (opt_secret opts) (js_or (env_SECRET E) (JBool False)),
                auth = a,
                preloadOrganizations = boolean_or (opt_preloadOrganizations opts) False,
                onlyFirstMatch = boolean_or (opt_onlyFirstMatch opts) False,
                ignoreBots = boolean_or (opt_ignoreBots opts) True,
                ignoreSelf = boolean_or (opt_ignoreSelf opts) True,
                receive = (if boolean_or (opt_ignoreSelf opts) True then [IgnoreSelf] else [])
                          @ (if boolean_or (opt_ignoreBots opts) True then [IgnoreBots] else [])
                          @ map UserStep (opt_receive opts),
                conversations = [],
                organizations = [],
                registeredCallbacks = [],
                textRegexpCallbacks = [],
                replyListenerId = 0,
                replyListeners = [],
                trace = [] \<rparr>)"

section \<open>Observing a run\<close>

text \<open>The names of the events emitted, and the functions of the caller that were called
  for a text trigger or for a reply listener, each in order.\<close>

fun emitted :: "event list \<Rightarrow> string list" where
  "emitted [] = []"
| "emitted (Emit name args # evs) = name # emitted evs"
| "emitted (ev # evs) = emitted evs"

fun called :: "origin \<Rightarrow> event list \<Rightarrow> (nat \<times> jsval list) list" where
  "called og [] = []"
| "called og (Call og' n args # evs) =
     (if og' = og then (n, args) # called og evs else called og evs)"
| "called og (ev # evs) = called og evs"

text \<open>Kinds of recorded events, and the relation between the bot before and after a
  method that only adds events of one kind and may change the reply listeners.\<close>

fun error_emit :: "event \<Rightarrow> bool" where
  "error_emit (Emit name args) = (name = ''error'')"
| "error_emit _ = False"

fun call_for :: "origin \<Rightarrow> event \<Rightarrow> bool" where
  "call_for og (Call og' n args) = (og' = og)"
| "call_for og _ = False"

fun any_emit :: "event \<Rightarrow> bool" where
  "any_emit (Emit name args) = True"
| "any_emit _ = False"

definition frame :: "(event \<Rightarrow> bool) \<Rightarrow> bot \<Rightarrow> bot \<Rightarrow> bool" where
  "frame P b b' =
     ((\<exists>new. trace b' = trace b @ new \<and> list_all P new)
      \<and> b'\<lparr>trace := [], replyListeners := []\<rparr> = b\<lparr>trace := [], replyListeners := []\<rparr>)"

subsection \<open>The reply listeners of a message\<close>

text \<open>
  The test of the \<open>forEach\<close> over the reply listeners, \<open>reply.chatId === message.conversation\<close>.
\<close>

definition for_conversation :: "jsval \<Rightarrow> reply_listener \<Rightarrow> bool" where
  "for_conversation message reply = strict_eq (rl_chatId reply) (field message ''conversation'')"

text \<open>A listener that \<open>ask\<close> registered has the wrapper of \<open>ask\<close> as its callback.\<close>

fun registered_by_ask :: "callback \<Rightarrow> bool" where
  "registered_by_ask (AskReply i c h) = True"
| "registered_by_ask _ = False"

text \<open>
  The function of the caller that the call of a listener's callback ends in: the function
  handed to \<open>onReply\<close> or to \<open>ask\<close>, or the callback registered under the name that was
  handed over. There is none when the name is not registered, when the callback is no
  function, and when the wrapper of \<open>ask\<close> carries another id than that of its listener.
\<close>

fun resolve :: "(string \<times> nat) list \<Rightarrow> handler \<Rightarrow> nat option" where
  "resolve reg (UserFn n) = Some n"
| "resolve reg (Named name) = map_of reg name"

definition listener_function :: "(string \<times> nat) list \<Rightarrow> reply_listener \<Rightarrow> nat option" where
  "listener_function reg l =
     (case rl_callback l of
        Plain h \<Rightarrow> resolve reg h
      | AskReply i c h \<Rightarrow> if i = rl_id l \<and> handler_truthy h then resolve reg h else None
      | _ \<Rightarrow> None)"

section \<open>Example inputs\<close>

text \<open>
  An environment whose only regular expression is \<open>/^hi/\<close>, whose \<open>toUpperCase\<close> maps
  the letters a to z and leaves every other character, and whose only token that decodes
  is \<open>good\<close>, for the user \<open>bot1\<close>; the options with that token, and the bot built from
  them.
\<close>

definition upper_char :: "char \<Rightarrow> char" where
  "upper_char c =
     (case map_of (zip ''abcdefghijklmnopqrstuvwxyz'' ''ABCDEFGHIJKLMNOPQRSTUVWXYZ'') c of
        None \<Rightarrow> c
      | Some u \<Rightarrow> u)"

definition env0 :: env where
  "env0 = \<lparr> regexp_test = (\<lambda>src v. src = ''/^hi/'' \<and> startsWith (to_string v) ''hi''),
            toUpperCase = map upper_char,
            getSignature = (\<lambda>payload secret. ''sha256='' @ to_string secret),
            jwt_decode = (\<lambda>t. if t = JStr ''good''
                            then JObj [(''payload'', JObj [(''_id'', JStr ''bot1''), (''organization'', JStr ''o1'')])]
                            else JNull),
            env_SECRET = JUndefined,
            user_step = (\<lambda>n payload. Next) \<rparr>"

definition opts0 :: options where
  "opts0 = \<lparr> opt_token = JStr ''good'', opt_secret = JStr ''s3cret'',
             opt_preloadOrganizations = JUndefined, opt_onlyFirstMatch = JUndefined,
             opt_ignoreBots = JUndefined, opt_ignoreSelf = JUndefined, opt_receive = [] \<rparr>"

definition bot1 :: bot where
  "bot1 = \<lparr> token = JStr ''good'', secret = JStr ''s3cret'',
            auth = JObj [(''user'', JStr ''bot1''), (''organization'', JStr ''o1''),
                         (''iat'', JUndefined), (''exp'', JUndefined)],
            preloadOrganizations = False, onlyFirstMatch = False,
            ignoreBots = True, ignoreSelf = True,
            receive = [IgnoreSelf, IgnoreBots],
            conversations = [], organizations = [], registeredCallbacks = [],
            textRegexpCallbacks = [], replyListenerId = 0, replyListeners = [], trace = [] \<rparr>"

text \<open>
  The conversation \<open>c1\<close>, without and with the marker that \<open>bot1\<close> awaits an answer; a chat
  message of a contact in \<open>c1\<close>, and the payload that carries it.
\<close>

definition conv_c1 :: jsval where
  "conv_c1 = JObj [(''id'', JStr ''c1''), (''organization'', JStr ''o1''), (''meta'', JObj [])]"

definition conv_c1_asked :: jsval where
  "conv_c1_asked = JObj [(''id'', JStr ''c1''), (''organization'', JStr ''o1''),
                         (''meta'', JObj [(''_askedbot1'', JStr ''m9'')])]"

definition msg_hi :: jsval where
  "msg_hi = JObj [(''conversation'', JStr ''c1''), (''user'', JStr ''u1''), (''role'', JStr ''contact''),
                  (''type'', JStr ''chat''), (''text'', JStr ''hi'')]"

definition payload_hi :: "jsval \<Rightarrow> jsval" where
  "payload_hi conv = JObj [(''event'', JStr ''message.create.contact.chat''),
                           (''data'', JObj [(''conversation'', conv), (''message'', msg_hi)])]"

text \<open>Bots that know \<open>c1\<close>: with the text trigger \<open>hi\<close>; with the two text triggers \<open>HI\<close>
  and \<open>/^hi/\<close>, which both match the text \<open>hi\<close>.\<close>

definition bot_trigger :: bot where
  "bot_trigger = onText (JStr ''hi'') (Callback (UserFn 1)) None (bot1\<lparr>conversations := [(''c1'', conv_c1)]\<rparr>)"

definition bot_two :: bot where
  "bot_two = onText (JRegExp ''/^hi/'') (Callback (UserFn 2)) None
               (onText (JStr ''HI'') (Callback (UserFn 1)) None
                  (bot1\<lparr>conversations := [(''c1'', conv_c1)]\<rparr>))"

text \<open>A bot that knows \<open>c1\<close>, with two text triggers \<open>hi\<close>: the first has a handler behind
  the conditional that the role is \<open>role\<close>, the second a handler without conditionals.\<close>

definition bot_gated :: "string \<Rightarrow> bot" where
  "bot_gated role =
     onText (JStr ''hi'') (Callback (UserFn 2)) None
       (onText (JStr ''hi'') (Conditionals [(''role'', JStr role)]) (Some (UserFn 1))
          (bot1\<lparr>conversations := [(''c1'', conv_c1)]\<rparr>))"

text \<open>
  Bots that await an answer in \<open>c1\<close>: with one reply listener; with four, of which the
  second was registered by \<open>ask\<close>, the third is for \<open>c2\<close> and the fourth has the name of
  a registered callback, and the text trigger \<open>hi\<close>; and with two questions asked, as
  \<open>ask\<close> leaves the bot once both were sent.
\<close>

definition bot_reply :: bot where
  "bot_reply = snd (onReply (JStr ''c1'') (JStr ''m9'') (Plain (UserFn 7))
                      (bot1\<lparr>conversations := [(''c1'', conv_c1_asked)]\<rparr>))"

definition bot_mixed :: bot where
  "bot_mixed =
     snd (onReply (JStr ''c1'') (JStr ''m9'') (Plain (Named ''resume''))
       (snd (onReply (JStr ''c2'') (JStr ''m3'') (Plain (UserFn 5))
          (snd (ask_sent (JStr ''c1'') (UserFn 8) JNull (JObj [(''id'', JStr ''m9'')])
             (snd (onReply (JStr ''c1'') (JStr ''m8'') (Plain (UserFn 7))
                (registerCallback ''resume'' 9
                   (onText (JStr ''hi'') (Callback (UserFn 1)) None
                      (bot1\<lparr>conversations := [(''c1'', conv_c1_asked)]\<rparr>))))))))))"

definition bot_ask2 :: bot where
  "bot_ask2 =
     snd (ask_sent (JStr ''c1'') (UserFn 8) JNull (JObj [(''id'', JStr ''m10'')])
       (snd (ask_sent (JStr ''c1'') (UserFn 7) JNull (JObj [(''id'', JStr ''m9'')])
          (bot1\<lparr>conversations := [(''c1'', conv_c1_asked)]\<rparr>))))"

text \<open>A context whose metadata has the role \<open>contact\<close>, and a message of an agent.\<close>

definition ctx_contact :: jsval where
  "ctx_contact = JObj [(''id'', JStr ''c1''), (''meta'', JObj [(''role'', JStr ''contact'')])]"

definition msg_agent :: jsval where
  "msg_agent = JObj [(''conversation'', JStr ''c1''), (''role'', JStr ''agent''), (''text'', JStr ''hi'')]"

text \<open>An organization; a bot that preloads organizations, and that bot while it waits for
  the organization of \<open>c1\<close>; a bot that has the organization in its cache.\<close>

definition org_acme :: jsval where
  "org_acme = JObj [(''id'', JStr ''o1''), (''name'', JStr ''Acme'')]"

definition bot_preload :: bot where
  "bot_preload = bot1\<lparr>preloadOrganizations := True\<rparr>"

definition bot_fetching :: bot where
  "bot_fetching = bot_preload\<lparr>conversations := [(''c1'', conv_c1)], trace := [Fetch (JStr ''o1'')]\<rparr>"

definition bot_org :: bot where
  "bot_org = bot1\<lparr>conversations := [(''c1'', conv_c1)], organizations := [(''o1'', org_acme)]\<rparr>"

text \<open>A chat message that names a conversation the bot has not seen, in a payload for \<open>c1\<close>.\<close>

definition msg_stray :: jsval where
  "msg_stray = JObj [(''conversation'', JStr ''c2''), (''user'', JStr ''u1''),
                     (''role'', JStr ''contact''), (''type'', JStr ''chat''),
                     (''text'', JStr ''hi'')]"

definition payload_stray :: jsval where
  "payload_stray =
     JObj [(''event'', JStr ''message.create.contact.chat''),
           (''data'', JObj [(''conversation'', conv_c1), (''message'', msg_stray)])]"

text \<open>Options without a token, and the bots built from them, without and with preloading.\<close>

definition opts_anon :: options where
  "opts_anon = opts0\<lparr>opt_token := JUndefined\<rparr>"

definition bot_anon :: bot where
  "bot_anon = bot1\<lparr>token := JUndefined, auth := JUndefined\<rparr>"

definition opts_anon_preload :: options where
  "opts_anon_preload = opts_anon\<lparr>opt_preloadOrganizations := JBool True\<rparr>"

definition bot_anon_preload :: bot where
  "bot_anon_preload = bot_anon\<lparr>preloadOrganizations := True\<rparr>"

section \<open>The lookup of a conditional key, in the words of the specification\<close>

text \<open>
  The specification has the key looked up on the message, then (for a key that begins with
  \<open>@\<close>) on the context without the \<open>@\<close>, then on the metadata of the context, and has
  the first location that yields a defined value tested. This is that value; it is
  compared with \<open>match\<close> below.
\<close>

definition spec_resolve :: "jsval \<Rightarrow> jsval \<Rightarrow> string \<Rightarrow> jsval" where
  "spec_resolve c m k =
     (if field m k \<noteq> JUndefined then field m k
      else if starts_at k \<and> field c (strip_at k) \<noteq> JUndefined then field c (strip_at k)
      else field (field c ''meta'') k)"

section \<open>Properties\<close>

text \<open>The definitions that an evaluation of a dispatch unfolds.\<close>

lemmas model_defs = object_prototype_def index_of_key_def handleMessage_def andThen_def eval_def ret_def get_prop_def getActionsObject_def
  cache_get_def cache_set_def js_or_def object_assign_def emit_def record_event_def qualifies_def
  trigger_result_def upper_char_def after_triggers_def questionAsked_def actions_get_def at_capture_def
  generic_emission_def assign_notify_def botcmd_notify_def mention_notify_def role_event_def
  startsWith_def call_reply_def call_registered_def onText_def onReply_def removeReplyListener_def
  handleEvent_def ingest_def ignoreSelfMiddleware_def ignoreBotsMiddleware_def arg_def
  match_def object_keys_def reducer_def meta_test_def starts_at_def strip_at_def show_int_def Let_def

lemmas example_defs = env0_def bot1_def conv_c1_def conv_c1_asked_def msg_hi_def payload_hi_def

subsection \<open>What a method adds to the trace\<close>

lemma frame_refl: "frame P b b"
  by (simp add: frame_def)

lemma frame_trans: "frame P b b1 \<Longrightarrow> frame P b1 b2 \<Longrightarrow> frame P b b2"
  unfolding frame_def by auto

lemma frame_weaken: "frame P b b' \<Longrightarrow> (\<And>ev. P ev \<Longrightarrow> Q ev) \<Longrightarrow> frame Q b b'"
  unfolding frame_def by (auto simp: list_all_iff)

lemma frame_record_event: "P ev \<Longrightarrow> frame P b (record_event ev b)"
  by (simp add: frame_def record_event_def)

lemma frame_listeners: "frame P b (b\<lparr>replyListeners := ls\<rparr>)"
  by (simp add: frame_def)

lemma frame_auth: "frame P b b' \<Longrightarrow> auth b' = auth b"
  unfolding frame_def by (auto dest: arg_cong [where f = auth])

lemma frame_getActionsObject: "frame error_emit b (snd (getActionsObject convId b))"
  by (simp add: getActionsObject_def emit_def frame_record_event frame_refl)

lemma frame_removeReplyListener: "frame P b (snd (removeReplyListener i b))"
  by (simp add: removeReplyListener_def frame_refl frame_listeners split: option.splits)

lemma frame_Call:
  "frame (\<lambda>ev. error_emit ev \<or> call_for og ev) b (record_event (Call og n args) b)"
  by (rule frame_record_event) simp

lemma frame_call_handler:
  "frame (\<lambda>ev. error_emit ev \<or> call_for og ev) b (snd (call_handler og h args b))"
  by (cases h) (simp_all add: frame_Call frame_refl)

lemma frame_call_registered:
  "frame (\<lambda>ev. error_emit ev \<or> call_for og ev) b (snd (call_registered og name args b))"
  by (simp add: call_registered_def frame_refl frame_Call split: option.splits)

lemma frame_invoke:
  "frame (\<lambda>ev. error_emit ev \<or> call_for og ev) b (snd (invoke E og cb args b))"
proof (cases cb)
  case (Plain h)
  then show ?thesis by (simp add: frame_call_handler)
next
  case (Conditional cs h)
  then show ?thesis
    by (simp add: frame_refl frame_call_handler split: sum.splits)
next
  case (AskReply i convId h)
  let ?b1 = "snd (removeReplyListener i b)"
  let ?b2 = "snd (getActionsObject convId ?b1)"
  have f12: "frame (\<lambda>ev. error_emit ev \<or> call_for og ev) b ?b2"
    by (rule frame_trans [OF frame_removeReplyListener])
       (rule frame_weaken [OF frame_getActionsObject], simp)
  have "frame (\<lambda>ev. error_emit ev \<or> call_for og ev) ?b2 (snd (invoke E og cb args b))"
    using AskReply
    by (simp add: Let_def frame_Call frame_refl frame_call_registered split: handler.splits)
  with f12 show ?thesis by (rule frame_trans)
next
  case (NotCallable v)
  then show ?thesis by (simp add: frame_refl)
qed

lemma frame_run_triggers:
  "frame (\<lambda>ev. error_emit ev \<or> call_for Trigger ev) b (snd (run_triggers E message ts ctx b))"
proof (induction ts arbitrary: ctx b)
  case Nil
  then show ?case by (simp add: frame_refl)
next
  case (Cons t ts)
  show ?case
  proof (cases "trigger_result E (tl_regexp t) (field message ''text'')")
    case (Inl e)
    then show ?thesis by (simp add: frame_refl)
  next
    case (Inr result)
    show ?thesis
    proof (cases result)
      case False
      with Inr Cons.IH show ?thesis by simp
    next
      case True
      obtain r b1 where inv: "invoke E Trigger (tl_callback t)
            [message, set_field ''captured'' (JBool True) ctx] b = (r, b1)"
        by (cases "invoke E Trigger (tl_callback t) [message, set_field ''captured'' (JBool True) ctx] b")
      have f1: "frame (\<lambda>ev. error_emit ev \<or> call_for Trigger ev) b b1"
        using frame_invoke [of Trigger b E "tl_callback t"
                "[message, set_field ''captured'' (JBool True) ctx]"] inv by simp
      show ?thesis
      proof (cases r)
        case (Inl e)
        with Inr True inv f1 show ?thesis by simp
      next
        case (Inr u)
        have "frame (\<lambda>ev. error_emit ev \<or> call_for Trigger ev) b1
                (snd (run_triggers E message ts (set_field ''captured'' (JBool True) ctx) b1))"
          by (rule Cons.IH)
        with f1 have "frame (\<lambda>ev. error_emit ev \<or> call_for Trigger ev) b
                (snd (run_triggers E message ts (set_field ''captured'' (JBool True) ctx) b1))"
          by (rule frame_trans)
        with Inr \<open>trigger_result E (tl_regexp t) (field message ''text'') = Inr result\<close> True inv f1
        show ?thesis by simp
      qed
    qed
  qed
qed

lemma frame_call_reply:
  "frame (\<lambda>ev. error_emit ev \<or> call_for Reply ev) b (snd (call_reply E reply message b))"
  by (simp add: call_reply_def frame_invoke frame_call_registered
           del: invoke.simps split: callback.splits handler.splits)

lemma frame_reply_loop:
  "frame (\<lambda>ev. error_emit ev \<or> call_for Reply ev) b (snd (reply_loop E message n k hr b))"
proof (induction n arbitrary: k hr b)
  case 0
  then show ?case by (simp add: frame_refl)
next
  case (Suc n)
  obtain r b1 where cr: "call_reply E (replyListeners b ! k) message b = (r, b1)"
    by (cases "call_reply E (replyListeners b ! k) message b")
  have f1: "frame (\<lambda>ev. error_emit ev \<or> call_for Reply ev) b b1"
    using frame_call_reply [of b E "replyListeners b ! k" message] cr by simp
  have "frame (\<lambda>ev. error_emit ev \<or> call_for Reply ev) b
          (snd (reply_loop E message n (Suc k) True b1))"
    by (rule frame_trans [OF f1 Suc.IH])
  with f1 cr Suc.IH show ?case
    by (cases r) simp_all
qed


lemma frame_andThen:
  assumes "\<And>b. frame P b (snd (m b))" and "\<And>x b. frame P b (snd (f x b))"
  shows "frame P b (snd (andThen m f b))"
proof (cases "m b")
  case (Pair r b1)
  have f1: "frame P b b1" using assms(1) [of b] Pair by simp
  show ?thesis
  proof (cases r)
    case (Inl e)
    with Pair f1 show ?thesis by (simp add: andThen_def)
  next
    case (Inr x)
    have "frame P b1 (snd (f x b1))" by (rule assms(2))
    with f1 have "frame P b (snd (f x b1))" by (rule frame_trans)
    with Pair Inr show ?thesis by (simp add: andThen_def)
  qed
qed

lemma frame_emit: "frame any_emit b (emit name args b)"
  by (simp add: emit_def frame_record_event)

lemma frame_assign_notify: "frame any_emit b (snd (assign_notify message ctx b))"
  by (simp add: assign_notify_def frame_refl frame_emit split: sum.splits)

lemma frame_botcmd_notify: "frame any_emit b (snd (botcmd_notify message ctx b))"
  by (simp add: botcmd_notify_def frame_refl frame_emit)

lemma frame_mention_notify: "frame any_emit b (snd (mention_notify message ctx b))"
  by (simp add: mention_notify_def frame_refl frame_emit split: sum.splits)

lemma frame_role_event: "frame any_emit b (snd (role_event type message ctx b))"
  by (simp add: role_event_def frame_refl frame_emit)

lemma frame_generic_emission: "frame any_emit b (snd (generic_emission type message ctx b))"
  unfolding generic_emission_def
  by (intro frame_andThen frame_assign_notify frame_botcmd_notify frame_mention_notify
        frame_role_event)
     (simp add: ret_def frame_trans [OF frame_emit frame_emit])

lemma reply_loop_True:
  "reply_loop E message n k True b = (Inr hr, b') \<Longrightarrow> hr"
  by (induction n arbitrary: k b) (auto split: if_splits prod.splits sum.splits)

lemma reply_loop_False:
  "reply_loop E message n k False b = (Inr False, b') \<Longrightarrow> b' = b"
proof (induction n arbitrary: k b)
  case 0
  then show ?case by simp
next
  case (Suc n)
  then show ?case
    by (auto split: if_splits prod.splits sum.splits dest: reply_loop_True)
qed

lemma called_append: "called og (xs @ ys) = called og xs @ called og ys"
  by (induction og xs rule: called.induct) simp_all

lemma emitted_append: "emitted (xs @ ys) = emitted xs @ emitted ys"
  by (induction xs rule: emitted.induct) simp_all

lemma called_none:
  "list_all (\<lambda>ev. any_emit ev \<or> call_for Trigger ev) evs \<Longrightarrow> called Reply evs = []"
  by (induction Reply evs rule: called.induct) auto

lemma emitted_errors:
  "list_all (\<lambda>ev. error_emit ev \<or> call_for og ev \<or> call_for og' ev) evs
   \<Longrightarrow> list_all (\<lambda>name. name = ''error'') (emitted evs)"
  by (induction evs rule: emitted.induct) auto

lemma called_errors: "list_all error_emit evs \<Longrightarrow> called og evs = []"
  by (induction og evs rule: called.induct) auto

lemma emitted_error_emits:
  "list_all error_emit evs \<Longrightarrow> list_all (\<lambda>name. name = ''error'') (emitted evs)"
  by (induction evs rule: emitted.induct) auto

lemma frame_split:
  "frame P b b' \<Longrightarrow> \<exists>new. trace b' = trace b @ new \<and> list_all P new"
  by (simp add: frame_def)


lemma frame_news: "frame P b b' \<Longrightarrow> list_all P (drop (length (trace b)) (trace b'))"
  unfolding frame_def by auto

lemma questionAsked_state: "snd (questionAsked message ctx b) = b"
  by (simp add: questionAsked_def split: sum.splits jsval.splits)

lemma error_emit_any: "error_emit ev \<Longrightarrow> any_emit ev"
  by (cases ev) simp_all

subsection \<open>Basic facts\<close>

lemma truthy_not_nullish: "truthy v \<Longrightarrow> \<not> nullish v"
  by (cases v) simp_all

lemma index_of_key_0: "index_of_key k 0 = None"
  by (simp add: index_of_key_def)

lemma truthy_field: "truthy (field v k) \<Longrightarrow> truthy v"
proof (cases v)
  case (JStr s)
  assume t: "truthy (field v k)"
  show ?thesis
  proof (cases "s = []")
    case True
    with JStr t show ?thesis by (simp add: index_of_key_0 split: if_splits)
  next
    case False
    with JStr show ?thesis by simp
  qed
qed simp_all

lemma strict_eq_JStr: "strict_eq (JStr s) v = (v = JStr s)"
  by (cases v) auto

lemma error_is_TypeError: "(e :: error) = TypeError"
  by (cases e) simp

lemma startsWith_nonempty: "startsWith s ''message'' \<Longrightarrow> s \<noteq> []"
  by (auto simp: startsWith_def)

lemma qualifies_not_nullish: "qualifies type message \<Longrightarrow> \<not> nullish message"
  by (cases message) (simp_all add: qualifies_def)

lemma set_field_twice: "set_field k v (set_field k v x) = set_field k v x"
  by (cases x) simp_all

lemma run_triggers_ctx:
  "run_triggers E message ts ctx b = (Inr ctx', b')
   \<Longrightarrow> ctx' = ctx \<or> ctx' = set_field ''captured'' (JBool True) ctx"
proof (induction ts arbitrary: ctx b)
  case Nil
  then show ?case by simp
next
  case (Cons t ts)
  then show ?case
    by (fastforce simp: set_field_twice split: sum.splits if_splits prod.splits)
qed

lemma getActionsObject_unknown:
  assumes "\<not> truthy convId \<or> \<not> truthy (cache_get (conversations b) convId)"
  shows "getActionsObject convId b =
           (JObj [], emit ''error'' [JObj [(''message'', JStr (''missing conv '' @ to_string convId))]] b)"
  using assms by (auto simp: getActionsObject_def)

lemma frame_onlyFirstMatch: "frame P b b' \<Longrightarrow> onlyFirstMatch b' = onlyFirstMatch b"
  unfolding frame_def by (auto dest: arg_cong [where f = onlyFirstMatch])

lemma frame_textRegexpCallbacks: "frame P b b' \<Longrightarrow> textRegexpCallbacks b' = textRegexpCallbacks b"
  unfolding frame_def by (auto dest: arg_cong [where f = textRegexpCallbacks])

lemma frame_organizations: "frame P b b' \<Longrightarrow> organizations b' = organizations b"
  unfolding frame_def by (auto dest: arg_cong [where f = organizations])

lemma frame_conversations: "frame P b b' \<Longrightarrow> conversations b' = conversations b"
  unfolding frame_def by (auto dest: arg_cong [where f = conversations])

lemma frame_registeredCallbacks: "frame P b b' \<Longrightarrow> registeredCallbacks b' = registeredCallbacks b"
  unfolding frame_def by (auto dest: arg_cong [where f = registeredCallbacks])

lemma field_set_field: "k' \<noteq> k \<Longrightarrow> field (set_field k v x) k' = field x k'"
  by (cases x) (simp_all add: update_conv')

lemma getActionsObject_known:
  assumes "truthy convId" and "truthy (cache_get (conversations b) convId)"
  shows "snd (getActionsObject convId b) = b"
    and "field (fst (getActionsObject convId b)) ''get'' = JFun ''get''"
  using assms
  by (simp_all add: getActionsObject_def object_assign_def update_conv')

lemma actions_get_cong:
  "conversations b' = conversations b \<Longrightarrow> actions_get convId key b' = actions_get convId key b"
  by (simp add: actions_get_def)

subsection \<open>C1: a claimed message and the generic events\<close>

text \<open>
  C1, as amended. When \<open>_handleMessage\<close> calls a handler for a reply listener, every event
  it emits for that message is an \<open>error\<close> signal of \<open>_getActionsObject\<close>: neither
  \<open>message\<close>, nor the typed event, nor \<open>notify\<close>, nor the typed event with the role is
  emitted. This holds however the dispatch ends. A text trigger does not have this
  effect: it marks the actions object as captured, and the generic events follow.
\<close>

theorem reply_handler_suppresses_generic_events:
  assumes run: "handleMessage E type message b = (r, b')"
      and fired: "called Reply (drop (length (trace b)) (trace b')) \<noteq> []"
  shows "list_all (\<lambda>name. name = ''error'') (emitted (drop (length (trace b)) (trace b')))"
proof -
  let ?Pc = "\<lambda>ev. any_emit ev \<or> call_for Trigger ev"
  let ?Pe = "\<lambda>ev. error_emit ev \<or> call_for Trigger ev \<or> call_for Reply ev"
  have quiet: False if "frame ?Pc b b'"
    using frame_news [OF that] called_none fired by blast
  have fin: ?thesis if "frame ?Pe b b'"
    using frame_news [OF that] by (rule emitted_errors)
  show ?thesis
  proof (cases "get_prop message ''conversation''")
    case (Inl e)
    with run have "b' = b" by (simp add: handleMessage_def andThen_def eval_def)
    with quiet frame_refl show ?thesis by blast
  next
    case (Inr convId)
    let ?ctx = "fst (getActionsObject convId b)"
    let ?b1 = "snd (getActionsObject convId b)"
    have f1: "frame error_emit b ?b1" by (rule frame_getActionsObject)
    have f1c: "frame ?Pc b ?b1" using f1 by (rule frame_weaken) (simp add: error_emit_any)
    have f1e: "frame ?Pe b ?b1" using f1 by (rule frame_weaken) simp
    show ?thesis
    proof (cases "qualifies type message")
      case False
      with run Inr have "b' = snd (generic_emission type message ?ctx ?b1)"
        by (simp add: handleMessage_def andThen_def eval_def ret_def)
      then have "frame any_emit ?b1 b'" by (simp add: frame_generic_emission)
      then have "frame ?Pc ?b1 b'" by (rule frame_weaken) simp
      with f1c have "frame ?Pc b b'" by (rule frame_trans)
      with quiet show ?thesis by blast
    next
      case True
      obtain rt b2 where rt: "run_triggers E message (textRegexpCallbacks ?b1) ?ctx ?b1 = (rt, b2)"
        by (cases "run_triggers E message (textRegexpCallbacks ?b1) ?ctx ?b1")
      have f2: "frame (\<lambda>ev. error_emit ev \<or> call_for Trigger ev) ?b1 b2"
        using frame_run_triggers [of ?b1 E message "textRegexpCallbacks ?b1" ?ctx] rt by simp
      have "frame ?Pc ?b1 b2" using f2 by (rule frame_weaken) (auto dest: error_emit_any)
      with f1c have f12c: "frame ?Pc b b2" by (rule frame_trans)
      have "frame ?Pe ?b1 b2" using f2 by (rule frame_weaken) auto
      with f1e have f12e: "frame ?Pe b b2" by (rule frame_trans)
      show ?thesis
      proof (cases rt)
        case (Inl e)
        with run Inr True rt have "b' = b2"
          by (simp add: handleMessage_def andThen_def eval_def ret_def)
        with quiet f12c show ?thesis by blast
      next
        case ctx': (Inr ctx')
        with run Inr True rt have at: "after_triggers E type message ctx' b2 = (r, b')"
          by (simp add: handleMessage_def andThen_def eval_def ret_def)
        obtain q where q: "questionAsked message ctx' b2 = (q, b2)"
          using questionAsked_state [of message ctx' b2]
          by (cases "questionAsked message ctx' b2") simp
        show ?thesis
        proof (cases q)
          case (Inl e)
          with at q have "b' = b2" by (simp add: after_triggers_def andThen_def)
          with quiet f12c show ?thesis by blast
        next
          case asked: (Inr asked)
          show ?thesis
          proof (cases "truthy asked")
            case False
            with at q asked have "b' = snd (generic_emission type message ctx' b2)"
              by (simp add: after_triggers_def andThen_def)
            then have "frame any_emit b2 b'" by (simp add: frame_generic_emission)
            then have "frame ?Pc b2 b'" by (rule frame_weaken) simp
            with f12c have "frame ?Pc b b'" by (rule frame_trans)
            with quiet show ?thesis by blast
          next
            case asked_true: True
            obtain rl b3 where rl:
              "reply_loop E message (length (replyListeners b2)) 0 False b2 = (rl, b3)"
              by (cases "reply_loop E message (length (replyListeners b2)) 0 False b2")
            have f3: "frame (\<lambda>ev. error_emit ev \<or> call_for Reply ev) b2 b3"
              using frame_reply_loop [of b2 E message "length (replyListeners b2)" 0 False] rl
              by simp
            have "frame ?Pe b2 b3" using f3 by (rule frame_weaken) auto
            with f12e have f123: "frame ?Pe b b3" by (rule frame_trans)
            show ?thesis
            proof (cases rl)
              case (Inl e)
              with at q asked asked_true rl have "b' = b3"
                by (simp add: after_triggers_def andThen_def)
              with fin f123 show ?thesis by blast
            next
              case hr: (Inr hasReplied)
              show ?thesis
              proof (cases hasReplied)
                case True
                with at q asked asked_true rl hr have "b' = b3"
                  by (simp add: after_triggers_def andThen_def ret_def)
                with fin f123 show ?thesis by blast
              next
                case False
                with rl hr have "b3 = b2" by (auto dest: reply_loop_False)
                with at q asked asked_true rl hr False
                have "b' = snd (generic_emission type message ctx' b2)"
                  by (simp add: after_triggers_def andThen_def)
                then have "frame any_emit b2 b'" by (simp add: frame_generic_emission)
                then have "frame ?Pc b2 b'" by (rule frame_weaken) simp
                with f12c have "frame ?Pc b b'" by (rule frame_trans)
                with quiet show ?thesis by blast
              qed
            qed
          qed
        qed
      qed
    qed
  qed
qed



theorem reply_handler_suppresses_generic_events_witness:
  "called Reply (drop (length (trace bot_reply))
      (trace (snd (handleMessage env0 ''message.create.contact.chat'' msg_hi bot_reply)))) \<noteq> []
   \<and> list_all (\<lambda>name. name = ''error'') (emitted (drop (length (trace bot_reply))
      (trace (snd (handleMessage env0 ''message.create.contact.chat'' msg_hi bot_reply)))))"
  using reply_handler_suppresses_generic_events
          [of env0 "''message.create.contact.chat''" msg_hi bot_reply
              "fst (handleMessage env0 ''message.create.contact.chat'' msg_hi bot_reply)"
              "snd (handleMessage env0 ''message.create.contact.chat'' msg_hi bot_reply)"]
  by (simp add: model_defs example_defs bot_reply_def)

text \<open>
  C1 as stated fails for a text trigger: with the trigger \<open>hi\<close> registered and no answer
  awaited, the chat message \<open>hi\<close> has the trigger's handler called, and \<open>message\<close>, the typed
  event and the typed event with the role are emitted all the same.
\<close>

theorem text_trigger_does_not_suppress_generic_events:
  "map fst (called Trigger
      (trace (snd (handleMessage env0 ''message.create.contact.chat'' msg_hi bot_trigger)))) = [1]
   \<and> emitted (trace (snd (handleMessage env0 ''message.create.contact.chat'' msg_hi bot_trigger)))
       = [''message'', ''message.create.contact.chat'', ''message.create.contact.chat.contact'']"
  by (simp add: model_defs example_defs bot_trigger_def)

subsection \<open>C2: the reply listeners of a conversation\<close>

lemma reply_loop_past_end:
  "length (replyListeners b) \<le> k \<Longrightarrow> reply_loop E message n k hr b = (Inr hr, b)"
  by (induction n arbitrary: k) simp_all

lemma find_first:
  "\<forall>x\<in>set pre. \<not> P x \<Longrightarrow> P l \<Longrightarrow> find P (pre @ l # rest) = Some l"
  by (induction pre) simp_all

lemma remove_first_first:
  "\<forall>x\<in>set pre. \<not> P x \<Longrightarrow> P l \<Longrightarrow> remove_first P (pre @ l # rest) = pre @ rest"
  by (induction pre) simp_all

lemma call_reply_plain_listener:
  assumes "rl_callback l = Plain h" and "resolve (registeredCallbacks b) h = Some f"
  shows "call_reply E l message b = (Inr (), b\<lparr>trace := trace b @ [Call Reply f [message]]\<rparr>)"
  using assms by (cases h) (simp_all add: call_reply_def call_registered_def record_event_def)

lemma call_reply_ask_listener:
  assumes cb: "rl_callback l = AskReply (rl_id l) c h"
      and h: "handler_truthy h" "resolve (registeredCallbacks b) h = Some f"
      and ls: "replyListeners b = pre @ l # rest"
      and fresh: "\<forall>x\<in>set pre. rl_id x \<noteq> rl_id l"
  shows "\<exists>errs c'. call_reply E l message b =
            (Inr (), b\<lparr>replyListeners := pre @ rest,
                        trace := trace b @ errs @ [Call Reply f [message, c']]\<rparr>)
          \<and> list_all error_emit errs"
proof -
  let ?b1 = "b\<lparr>replyListeners := pre @ rest\<rparr>"
  have r: "snd (removeReplyListener (rl_id l) b) = ?b1"
    using ls fresh
    by (simp add: removeReplyListener_def find_first remove_first_first)
  obtain errs where g: "snd (getActionsObject c ?b1) = ?b1\<lparr>trace := trace ?b1 @ errs\<rparr>"
      "list_all error_emit errs"
  proof (cases "\<not> truthy c \<or> \<not> truthy (cache_get (conversations ?b1) c)")
    case True
    then have "snd (getActionsObject c ?b1) = ?b1\<lparr>trace := trace ?b1 @
                 [Emit ''error'' [JObj [(''message'', JStr (''missing conv '' @ to_string c))]]]\<rparr>"
      by (simp add: getActionsObject_unknown emit_def record_event_def)
    then show ?thesis using that [of "[Emit ''error'' [JObj [(''message'', JStr (''missing conv '' @ to_string c))]]]"]
      by simp
  next
    case False
    then have "snd (getActionsObject c ?b1) = ?b1\<lparr>trace := trace ?b1 @ []\<rparr>"
      by (simp add: getActionsObject_def)
    then show ?thesis using that [of "[]"] by simp
  qed
  let ?c' = "fst (getActionsObject c ?b1)"
  have "call_reply E l message b =
            (Inr (), b\<lparr>replyListeners := pre @ rest,
                        trace := trace b @ errs @ [Call Reply f [message, ?c']]\<rparr>)"
    using cb h r g(1)
    by (cases h)
       (simp_all add: call_reply_def Let_def arg_def call_registered_def record_event_def)
  with g(2) show ?thesis by blast
qed


lemma reply_loop_walk:
  "\<lbrakk>replyListeners b = pre @ s; length pre = k; registeredCallbacks b = reg;
    map (listener_function reg) s = map Some fns;
    distinct (map rl_id (pre @ s));
    list_all (\<lambda>p. \<not> (for_conversation message (fst p)
                       \<and> registered_by_ask (rl_callback (fst p))
                       \<and> for_conversation message (snd p))) (zip s (tl s));
    length s \<le> n\<rbrakk>
   \<Longrightarrow> \<exists>b' new. reply_loop E message n k hr b = (Inr (hr \<or> list_ex (for_conversation message) s), b')
        \<and> replyListeners b' = pre @ filter (\<lambda>l. \<not> (for_conversation message l
                                                  \<and> registered_by_ask (rl_callback l))) s
        \<and> registeredCallbacks b' = reg
        \<and> b'\<lparr>trace := [], replyListeners := []\<rparr> = b\<lparr>trace := [], replyListeners := []\<rparr>
        \<and> trace b' = trace b @ new
        \<and> map (\<lambda>p. (fst p, hd (snd p))) (called Reply new)
            = map (\<lambda>p. (snd p, message)) (filter (\<lambda>p. for_conversation message (fst p)) (zip s fns))
        \<and> called Trigger new = []
        \<and> list_all (\<lambda>name. name = ''error'') (emitted new)"
proof (induction n arbitrary: k pre s fns hr b)
  case 0
  then have "s = []" by simp
  with 0 show ?case by simp
next
  case (Suc n)
  show ?case
  proof (cases s)
    case Nil
    with Suc.prems have "length (replyListeners b) \<le> k" by simp
    then have "reply_loop E message (Suc n) k hr b = (Inr hr, b)"
      by (rule reply_loop_past_end)
    with Nil Suc.prems show ?thesis by simp
  next
    case (Cons l rest)
    then obtain f frest where fns: "fns = f # frest"
      using Suc.prems(4) by (cases fns) auto
    have lf: "listener_function reg l = Some f"
      and rest_f: "map (listener_function reg) rest = map Some frest"
      using Suc.prems(4) Cons fns by simp_all
    have k: "k < length (replyListeners b)" "replyListeners b ! k = l"
      using Suc.prems(1,2) Cons by (simp_all add: nth_append)
    have dist: "distinct (map rl_id (pre @ l # rest))" using Suc.prems(5) Cons by simp
    have ns_rest: "list_all (\<lambda>p. \<not> (for_conversation message (fst p)
                       \<and> registered_by_ask (rl_callback (fst p))
                       \<and> for_conversation message (snd p))) (zip rest (tl rest))"
      using Suc.prems(6) Cons by (cases rest) simp_all
    show ?thesis
    proof (cases "for_conversation message l")
      case False
      have step: "reply_loop E message (Suc n) k hr b = reply_loop E message n (Suc k) hr b"
        using k False by (simp add: for_conversation_def)
      have "\<exists>b' new. reply_loop E message n (Suc k) hr b
                = (Inr (hr \<or> list_ex (for_conversation message) rest), b')
        \<and> replyListeners b' = (pre @ [l]) @ filter (\<lambda>l. \<not> (for_conversation message l
                                                  \<and> registered_by_ask (rl_callback l))) rest
        \<and> registeredCallbacks b' = reg
        \<and> b'\<lparr>trace := [], replyListeners := []\<rparr> = b\<lparr>trace := [], replyListeners := []\<rparr>
        \<and> trace b' = trace b @ new
        \<and> map (\<lambda>p. (fst p, hd (snd p))) (called Reply new)
            = map (\<lambda>p. (snd p, message))
                (filter (\<lambda>p. for_conversation message (fst p)) (zip rest frest))
        \<and> called Trigger new = []
        \<and> list_all (\<lambda>name. name = ''error'') (emitted new)"
        by (rule Suc.IH) (use Suc.prems Cons rest_f dist ns_rest in simp_all)
      with step False Cons fns show ?thesis by simp
    next
      case True
      show ?thesis
      proof (cases "registered_by_ask (rl_callback l)")
        case False
        then obtain h where h: "rl_callback l = Plain h" "resolve reg h = Some f"
          using lf by (cases "rl_callback l") (simp_all add: listener_function_def split: if_splits)
        let ?b1 = "b\<lparr>trace := trace b @ [Call Reply f [message]]\<rparr>"
        have cr: "call_reply E l message b = (Inr (), ?b1)"
          using h Suc.prems(3) by (simp add: call_reply_plain_listener)
        have step: "reply_loop E message (Suc n) k hr b = reply_loop E message n (Suc k) True ?b1"
          using k True cr by (simp add: for_conversation_def)
        have "\<exists>b' new. reply_loop E message n (Suc k) True ?b1
                = (Inr (True \<or> list_ex (for_conversation message) rest), b')
          \<and> replyListeners b' = (pre @ [l]) @ filter (\<lambda>l. \<not> (for_conversation message l
                                                  \<and> registered_by_ask (rl_callback l))) rest
          \<and> registeredCallbacks b' = reg
          \<and> b'\<lparr>trace := [], replyListeners := []\<rparr> = ?b1\<lparr>trace := [], replyListeners := []\<rparr>
          \<and> trace b' = trace ?b1 @ new
          \<and> map (\<lambda>p. (fst p, hd (snd p))) (called Reply new)
              = map (\<lambda>p. (snd p, message))
                  (filter (\<lambda>p. for_conversation message (fst p)) (zip rest frest))
          \<and> called Trigger new = []
          \<and> list_all (\<lambda>name. name = ''error'') (emitted new)"
          by (rule Suc.IH) (use Suc.prems Cons rest_f dist ns_rest in simp_all)
        then obtain b' new where r:
            "reply_loop E message n (Suc k) True ?b1 = (Inr True, b')"
            "replyListeners b' = (pre @ [l]) @ filter (\<lambda>l. \<not> (for_conversation message l
                                                  \<and> registered_by_ask (rl_callback l))) rest"
            "registeredCallbacks b' = reg"
            "b'\<lparr>trace := [], replyListeners := []\<rparr> = ?b1\<lparr>trace := [], replyListeners := []\<rparr>"
            "trace b' = trace ?b1 @ new"
            "map (\<lambda>p. (fst p, hd (snd p))) (called Reply new)
              = map (\<lambda>p. (snd p, message))
                  (filter (\<lambda>p. for_conversation message (fst p)) (zip rest frest))"
            "called Trigger new = []"
            "list_all (\<lambda>name. name = ''error'') (emitted new)"
          by auto
        have "trace b' = trace b @ (Call Reply f [message] # new)" using r(5) by simp
        moreover have "map (\<lambda>p. (fst p, hd (snd p))) (called Reply (Call Reply f [message] # new))
              = map (\<lambda>p. (snd p, message))
                  (filter (\<lambda>p. for_conversation message (fst p)) (zip s fns))"
          using r(6) True Cons fns by simp
        moreover have "called Trigger (Call Reply f [message] # new) = []" using r(7) by simp
        moreover have "list_all (\<lambda>name. name = ''error'') (emitted (Call Reply f [message] # new))"
          using r(8) by simp
        moreover have "replyListeners b' = pre @ filter (\<lambda>l. \<not> (for_conversation message l
                                                  \<and> registered_by_ask (rl_callback l))) s"
          using r(2) False Cons by simp
        moreover have "b'\<lparr>trace := [], replyListeners := []\<rparr> = b\<lparr>trace := [], replyListeners := []\<rparr>"
          using r(4) by simp
        moreover have "reply_loop E message (Suc n) k hr b
                         = (Inr (hr \<or> list_ex (for_conversation message) s), b')"
          using step r(1) True Cons by simp
        ultimately show ?thesis using r(3) by blast
      next
        case ask: True
        then obtain c h where h: "rl_callback l = AskReply (rl_id l) c h" "handler_truthy h"
            "resolve reg h = Some f"
          using lf by (cases "rl_callback l") (simp_all add: listener_function_def split: if_splits)
        have fresh: "\<forall>x\<in>set pre. rl_id x \<noteq> rl_id l" using dist by (auto simp: image_iff)
        obtain errs c' where cr:
            "call_reply E l message b =
              (Inr (), b\<lparr>replyListeners := pre @ rest,
                          trace := trace b @ errs @ [Call Reply f [message, c']]\<rparr>)"
            "list_all error_emit errs"
          using call_reply_ask_listener [OF h(1) h(2), of b f pre rest E message]
                h(3) Suc.prems(1,3) Cons fresh by auto
        let ?b1 = "b\<lparr>replyListeners := pre @ rest,
                      trace := trace b @ errs @ [Call Reply f [message, c']]\<rparr>"
        have step: "reply_loop E message (Suc n) k hr b = reply_loop E message n (Suc k) True ?b1"
          using k True cr(1) by (simp add: for_conversation_def)
        have e1: "called Reply errs = []" "called Trigger errs = []"
          using cr(2) by (simp_all add: called_errors)
        have e2: "list_all (\<lambda>name. name = ''error'') (emitted errs)"
          using cr(2) by (rule emitted_error_emits)
        show ?thesis
        proof (cases rest)
          case Nil
          have "length (replyListeners ?b1) \<le> Suc k" using Nil Suc.prems(2) by simp
          then have "reply_loop E message n (Suc k) True ?b1 = (Inr True, ?b1)"
            by (rule reply_loop_past_end)
          with step have res: "reply_loop E message (Suc n) k hr b = (Inr True, ?b1)" by simp
          have "frest = []" using rest_f Nil by simp
          then have "map (\<lambda>p. (fst p, hd (snd p)))
                       (called Reply (errs @ [Call Reply f [message, c']]))
              = map (\<lambda>p. (snd p, message))
                  (filter (\<lambda>p. for_conversation message (fst p)) (zip s fns))"
            using True Cons Nil fns e1 by (simp add: called_append)
          moreover have "called Trigger (errs @ [Call Reply f [message, c']]) = []"
            using e1 by (simp add: called_append)
          moreover have "list_all (\<lambda>name. name = ''error'')
                           (emitted (errs @ [Call Reply f [message, c']]))"
            using e2 by (simp add: emitted_append)
          moreover have "replyListeners ?b1 = pre @ filter (\<lambda>l. \<not> (for_conversation message l
                                                  \<and> registered_by_ask (rl_callback l))) s"
            using True ask Cons Nil by simp
          moreover have "trace ?b1 = trace b @ (errs @ [Call Reply f [message, c']])" by simp
          moreover have "reply_loop E message (Suc n) k hr b
                           = (Inr (hr \<or> list_ex (for_conversation message) s), ?b1)"
            using res True Cons by simp
          moreover have "registeredCallbacks ?b1 = reg" using Suc.prems(3) by simp
          moreover have "?b1\<lparr>trace := [], replyListeners := []\<rparr> = b\<lparr>trace := [], replyListeners := []\<rparr>"
            by simp
          ultimately show ?thesis by blast
        next
          case rest': (Cons l' rest')
          have notmine: "\<not> for_conversation message l'"
            using Suc.prems(6) Cons rest' True ask by simp
          obtain f' frest' where frest: "frest = f' # frest'"
            using rest_f rest' by (cases frest) auto
          have "\<exists>b' new. reply_loop E message n (Suc k) True ?b1
                = (Inr (True \<or> list_ex (for_conversation message) rest'), b')
            \<and> replyListeners b' = (pre @ [l']) @ filter (\<lambda>l. \<not> (for_conversation message l
                                                  \<and> registered_by_ask (rl_callback l))) rest'
            \<and> registeredCallbacks b' = reg
            \<and> b'\<lparr>trace := [], replyListeners := []\<rparr> = ?b1\<lparr>trace := [], replyListeners := []\<rparr>
            \<and> trace b' = trace ?b1 @ new
            \<and> map (\<lambda>p. (fst p, hd (snd p))) (called Reply new)
                = map (\<lambda>p. (snd p, message))
                    (filter (\<lambda>p. for_conversation message (fst p)) (zip rest' frest'))
            \<and> called Trigger new = []
            \<and> list_all (\<lambda>name. name = ''error'') (emitted new)"
          proof (rule Suc.IH)
            show "replyListeners ?b1 = (pre @ [l']) @ rest'" using rest' by simp
            show "length (pre @ [l']) = Suc k" using Suc.prems(2) by simp
            show "registeredCallbacks ?b1 = reg" using Suc.prems(3) by simp
            show "map (listener_function reg) rest' = map Some frest'"
              using rest_f rest' frest by simp
            show "distinct (map rl_id ((pre @ [l']) @ rest'))" using dist rest' by simp
            show "list_all (\<lambda>p. \<not> (for_conversation message (fst p)
                       \<and> registered_by_ask (rl_callback (fst p))
                       \<and> for_conversation message (snd p))) (zip rest' (tl rest'))"
              using ns_rest rest' by (cases rest') simp_all
            show "length rest' \<le> n" using Suc.prems(7) Cons rest' by simp
          qed
          then obtain b' new where r:
            "reply_loop E message n (Suc k) True ?b1 = (Inr True, b')"
            "replyListeners b' = (pre @ [l']) @ filter (\<lambda>l. \<not> (for_conversation message l
                                                  \<and> registered_by_ask (rl_callback l))) rest'"
            "registeredCallbacks b' = reg"
            "b'\<lparr>trace := [], replyListeners := []\<rparr> = ?b1\<lparr>trace := [], replyListeners := []\<rparr>"
            "trace b' = trace ?b1 @ new"
            "map (\<lambda>p. (fst p, hd (snd p))) (called Reply new)
              = map (\<lambda>p. (snd p, message))
                  (filter (\<lambda>p. for_conversation message (fst p)) (zip rest' frest'))"
            "called Trigger new = []"
            "list_all (\<lambda>name. name = ''error'') (emitted new)"
            by auto
          have "trace b' = trace b @ (errs @ Call Reply f [message, c'] # new)" using r(5) by simp
          moreover have "map (\<lambda>p. (fst p, hd (snd p)))
                           (called Reply (errs @ Call Reply f [message, c'] # new))
              = map (\<lambda>p. (snd p, message))
                  (filter (\<lambda>p. for_conversation message (fst p)) (zip s fns))"
            using r(6) True notmine Cons rest' fns frest e1 by (simp add: called_append)
          moreover have "called Trigger (errs @ Call Reply f [message, c'] # new) = []"
            using r(7) e1 by (simp add: called_append)
          moreover have "list_all (\<lambda>name. name = ''error'')
                           (emitted (errs @ Call Reply f [message, c'] # new))"
            using r(8) e2 by (simp add: emitted_append)
          moreover have "replyListeners b' = pre @ filter (\<lambda>l. \<not> (for_conversation message l
                                                  \<and> registered_by_ask (rl_callback l))) s"
            using r(2) True ask notmine Cons rest' by simp
          moreover have "b'\<lparr>trace := [], replyListeners := []\<rparr> = b\<lparr>trace := [], replyListeners := []\<rparr>"
            using r(4) by simp
          moreover have "reply_loop E message (Suc n) k hr b
                           = (Inr (hr \<or> list_ex (for_conversation message) s), b')"
            using step r(1) True Cons by simp
          ultimately show ?thesis using r(3) by blast
        qed
      qed
    qed
  qed
qed


lemma after_triggers_listeners:
  assumes asked: "questionAsked message ctx b = (Inr asked, b)" "truthy asked"
      and fns: "map (listener_function (registeredCallbacks b)) (replyListeners b) = map Some fns"
      and ids: "distinct (map rl_id (replyListeners b))"
      and noskip: "list_all (\<lambda>p. \<not> (for_conversation message (fst p)
                       \<and> registered_by_ask (rl_callback (fst p))
                       \<and> for_conversation message (snd p)))
                     (zip (replyListeners b) (tl (replyListeners b)))"
      and some: "list_ex (for_conversation message) (replyListeners b)"
  shows "\<exists>b' new. after_triggers E type message ctx b = (Inr (), b')
        \<and> replyListeners b' = filter (\<lambda>l. \<not> (for_conversation message l
                                            \<and> registered_by_ask (rl_callback l))) (replyListeners b)
        \<and> b'\<lparr>trace := [], replyListeners := []\<rparr> = b\<lparr>trace := [], replyListeners := []\<rparr>
        \<and> trace b' = trace b @ new
        \<and> map (\<lambda>p. (fst p, hd (snd p))) (called Reply new)
            = map (\<lambda>p. (snd p, message))
                (filter (\<lambda>p. for_conversation message (fst p)) (zip (replyListeners b) fns))
        \<and> called Trigger new = []
        \<and> list_all (\<lambda>name. name = ''error'') (emitted new)"
proof -
  have "\<exists>b' new. reply_loop E message (length (replyListeners b)) 0 False b
            = (Inr (False \<or> list_ex (for_conversation message) (replyListeners b)), b')
        \<and> replyListeners b' = [] @ filter (\<lambda>l. \<not> (for_conversation message l
                                                  \<and> registered_by_ask (rl_callback l))) (replyListeners b)
        \<and> registeredCallbacks b' = registeredCallbacks b
        \<and> b'\<lparr>trace := [], replyListeners := []\<rparr> = b\<lparr>trace := [], replyListeners := []\<rparr>
        \<and> trace b' = trace b @ new
        \<and> map (\<lambda>p. (fst p, hd (snd p))) (called Reply new)
            = map (\<lambda>p. (snd p, message))
                (filter (\<lambda>p. for_conversation message (fst p)) (zip (replyListeners b) fns))
        \<and> called Trigger new = []
        \<and> list_all (\<lambda>name. name = ''error'') (emitted new)"
    by (rule reply_loop_walk) (use fns ids noskip in simp_all)
  then obtain b' new where r:
      "reply_loop E message (length (replyListeners b)) 0 False b = (Inr True, b')"
      "replyListeners b' = filter (\<lambda>l. \<not> (for_conversation message l
                                                  \<and> registered_by_ask (rl_callback l))) (replyListeners b)"
      "b'\<lparr>trace := [], replyListeners := []\<rparr> = b\<lparr>trace := [], replyListeners := []\<rparr>"
      "trace b' = trace b @ new"
      "map (\<lambda>p. (fst p, hd (snd p))) (called Reply new)
            = map (\<lambda>p. (snd p, message))
                (filter (\<lambda>p. for_conversation message (fst p)) (zip (replyListeners b) fns))"
      "called Trigger new = []"
      "list_all (\<lambda>name. name = ''error'') (emitted new)"
    using some by auto
  have "after_triggers E type message ctx b = (Inr (), b')"
    using asked r(1) by (simp add: after_triggers_def andThen_def ret_def)
  with r show ?thesis by blast
qed

lemma invoke_keeps_listeners:
  assumes "\<forall>i c h. cb \<noteq> AskReply i c h"
  shows "replyListeners (snd (invoke E og cb args b)) = replyListeners b"
proof (cases cb)
  case (Plain h)
  then show ?thesis by (cases h) (simp_all add: record_event_def)
next
  case (Conditional cs h)
  then show ?thesis by (cases h) (simp_all add: record_event_def split: sum.splits)
next
  case (AskReply i c h)
  with assms show ?thesis by simp
next
  case (NotCallable v)
  then show ?thesis by simp
qed

lemma run_triggers_keeps_listeners:
  assumes "list_all (\<lambda>t. \<forall>i c h. tl_callback t \<noteq> AskReply i c h) ts"
  shows "replyListeners (snd (run_triggers E message ts ctx b)) = replyListeners b"
  using assms
proof (induction ts arbitrary: ctx b)
  case Nil
  then show ?case by simp
next
  case (Cons t ts)
  have keep: "replyListeners (snd (invoke E Trigger (tl_callback t)
                 [message, set_field ''captured'' (JBool True) ctx] b)) = replyListeners b"
    using Cons.prems by (simp add: invoke_keeps_listeners)
  have rest: "list_all (\<lambda>t. \<forall>i c h. tl_callback t \<noteq> AskReply i c h) ts"
    using Cons.prems by simp
  show ?case
  proof (cases "trigger_result E (tl_regexp t) (field message ''text'')")
    case (Inl e)
    then show ?thesis by simp
  next
    case (Inr result)
    show ?thesis
    proof (cases result)
      case False
      with Inr Cons.IH [OF rest] show ?thesis by simp
    next
      case True
      obtain r b1 where inv: "invoke E Trigger (tl_callback t)
            [message, set_field ''captured'' (JBool True) ctx] b = (r, b1)"
        by (cases "invoke E Trigger (tl_callback t) [message, set_field ''captured'' (JBool True) ctx] b")
      with keep have k1: "replyListeners b1 = replyListeners b" by simp
      show ?thesis
        using Inr True inv k1 Cons.IH [OF rest, of "set_field ''captured'' (JBool True) ctx" b1]
        by (cases r) simp_all
    qed
  qed
qed

text \<open>
  C2, as amended. Take a qualifying message of a conversation that is in the cache and has
  the marker set, and text triggers that were registered with \<open>onText\<close> and whose callbacks
  return normally. Let the reply listeners have distinct ids, each registered with
  \<open>onReply\<close> or by \<open>ask\<close>, with a function or the name of a registered callback; let at
  least one of them be for the conversation of the message; and let no listener that \<open>ask\<close>
  registered for that conversation be directly followed in the list by another listener
  of that conversation. Then \<open>_handleMessage\<close> returns normally and calls, after the text
  triggers, the handler of every reply listener of that conversation, once, in the order
  of registration, with that message as first argument. It emits no generic event. After
  the dispatch the list of reply listeners is the old list without the listeners that
  \<open>ask\<close> registered for that conversation: a listener registered with \<open>onReply\<close> is called
  and stays registered.
\<close>

theorem reply_listeners_called_in_order:
  assumes q: "qualifies type message"
      and known: "truthy (field message ''conversation'')"
                 "truthy (cache_get (conversations b) (field message ''conversation''))"
      and self: "\<not> nullish (auth b)"
      and marker: "truthy (actions_get (field message ''conversation'')
                     (''_asked'' @ to_string (field (auth b) ''user'')) b)"
      and onText: "list_all (\<lambda>t. \<forall>i c h. tl_callback t \<noteq> AskReply i c h) (textRegexpCallbacks b)"
      and triggers: "run_triggers E message (textRegexpCallbacks b)
                       (fst (getActionsObject (field message ''conversation'') b)) b = (Inr ctx, b')"
      and fns: "map (listener_function (registeredCallbacks b)) (replyListeners b) = map Some fns"
      and ids: "distinct (map rl_id (replyListeners b))"
      and noskip: "list_all (\<lambda>p. \<not> (for_conversation message (fst p)
                       \<and> registered_by_ask (rl_callback (fst p))
                       \<and> for_conversation message (snd p)))
                     (zip (replyListeners b) (tl (replyListeners b)))"
      and some: "list_ex (for_conversation message) (replyListeners b)"
  shows "fst (handleMessage E type message b) = Inr ()
         \<and> take (length (trace b')) (trace (snd (handleMessage E type message b))) = trace b'
         \<and> map (\<lambda>p. (fst p, hd (snd p)))
             (called Reply (drop (length (trace b')) (trace (snd (handleMessage E type message b)))))
           = map (\<lambda>p. (snd p, message))
               (filter (\<lambda>p. for_conversation message (fst p)) (zip (replyListeners b) fns))
         \<and> list_all (\<lambda>name. name = ''error'')
             (emitted (drop (length (trace b')) (trace (snd (handleMessage E type message b)))))
         \<and> replyListeners (snd (handleMessage E type message b))
           = filter (\<lambda>l. \<not> (for_conversation message l \<and> registered_by_ask (rl_callback l)))
               (replyListeners b)"
proof -
  let ?conv = "field message ''conversation''"
  let ?ctx0 = "fst (getActionsObject ?conv b)"
  have gp: "get_prop message ''conversation'' = Inr ?conv"
    using qualifies_not_nullish [OF q] by (simp add: get_prop_def)
  have s0: "snd (getActionsObject ?conv b) = b"
    and g0: "field ?ctx0 ''get'' = JFun ''get''"
    using getActionsObject_known [OF known] by simp_all
  have fr: "frame (\<lambda>ev. error_emit ev \<or> call_for Trigger ev) b b'"
    using frame_run_triggers [of b E message "textRegexpCallbacks b" ?ctx0] triggers by simp
  have ls: "replyListeners b' = replyListeners b"
    using run_triggers_keeps_listeners [OF onText, of E message ?ctx0 b] triggers by simp
  have reg: "registeredCallbacks b' = registeredCallbacks b"
    using fr by (rule frame_registeredCallbacks)
  have au: "auth b' = auth b" using fr by (rule frame_auth)
  have cv: "conversations b' = conversations b" using fr by (rule frame_conversations)
  have "ctx = ?ctx0 \<or> ctx = set_field ''captured'' (JBool True) ?ctx0"
    using triggers by (rule run_triggers_ctx)
  then have g: "field ctx ''get'' = JFun ''get''"
    using g0 by (auto simp: field_set_field)
  have qa: "questionAsked message ctx b' =
              (Inr (actions_get ?conv (''_asked'' @ to_string (field (auth b) ''user'')) b), b')"
    using self g au actions_get_cong [OF cv]
    by (simp add: questionAsked_def get_prop_def)
  have "\<exists>b'' new. after_triggers E type message ctx b' = (Inr (), b'')
        \<and> replyListeners b'' = filter (\<lambda>l. \<not> (for_conversation message l
                                            \<and> registered_by_ask (rl_callback l))) (replyListeners b')
        \<and> b''\<lparr>trace := [], replyListeners := []\<rparr> = b'\<lparr>trace := [], replyListeners := []\<rparr>
        \<and> trace b'' = trace b' @ new
        \<and> map (\<lambda>p. (fst p, hd (snd p))) (called Reply new)
            = map (\<lambda>p. (snd p, message))
                (filter (\<lambda>p. for_conversation message (fst p)) (zip (replyListeners b') fns))
        \<and> called Trigger new = []
        \<and> list_all (\<lambda>name. name = ''error'') (emitted new)"
    by (rule after_triggers_listeners [OF qa marker]) (use ls reg fns ids noskip some in simp_all)
  then obtain b'' new where r:
      "after_triggers E type message ctx b' = (Inr (), b'')"
      "replyListeners b'' = filter (\<lambda>l. \<not> (for_conversation message l
                                            \<and> registered_by_ask (rl_callback l))) (replyListeners b')"
      "trace b'' = trace b' @ new"
      "map (\<lambda>p. (fst p, hd (snd p))) (called Reply new)
            = map (\<lambda>p. (snd p, message))
                (filter (\<lambda>p. for_conversation message (fst p)) (zip (replyListeners b') fns))"
      "list_all (\<lambda>name. name = ''error'') (emitted new)"
    by blast
  have hm: "handleMessage E type message b = (Inr (), b'')"
    using q gp s0 triggers r(1)
    by (simp add: handleMessage_def andThen_def eval_def ret_def)
  show ?thesis
    using hm r(2-5) ls by simp
qed

theorem reply_listeners_called_in_order_witness:
  "qualifies ''message.create.contact.chat'' msg_hi
   \<and> map rl_id (replyListeners bot_mixed) = [1, 2, 3, 4]
   \<and> map (for_conversation msg_hi) (replyListeners bot_mixed) = [True, True, False, True]
   \<and> map (\<lambda>l. registered_by_ask (rl_callback l)) (replyListeners bot_mixed) = [False, True, False, False]
   \<and> fst (handleMessage env0 ''message.create.contact.chat'' msg_hi bot_mixed) = Inr ()
   \<and> map (\<lambda>p. (fst p, hd (snd p)))
        (called Reply (trace (snd (handleMessage env0 ''message.create.contact.chat'' msg_hi bot_mixed))))
       = [(7, msg_hi), (8, msg_hi), (9, msg_hi)]
   \<and> emitted (trace (snd (handleMessage env0 ''message.create.contact.chat'' msg_hi bot_mixed))) = []
   \<and> map rl_id (replyListeners
         (snd (handleMessage env0 ''message.create.contact.chat'' msg_hi bot_mixed))) = [1, 3, 4]"
  using reply_listeners_called_in_order
          [of "''message.create.contact.chat''" msg_hi bot_mixed env0
              "set_field ''captured'' (JBool True) (fst (getActionsObject (JStr ''c1'') bot_mixed))"
              "snd (run_triggers env0 msg_hi (textRegexpCallbacks bot_mixed)
                      (fst (getActionsObject (JStr ''c1'') bot_mixed)) bot_mixed)"
              "[7, 8, 5, 9]"]
  by (simp add: model_defs example_defs bot_mixed_def registerCallback_def ask_sent_def
        for_conversation_def listener_function_def upper_char_def)

text \<open>
  C2 as stated fails in its last part: a listener registered with \<open>onReply\<close> is called
  and is still registered after the dispatch of the message.
\<close>

theorem reply_listener_stays_registered:
  "called Reply (trace (snd (handleMessage env0 ''message.create.contact.chat'' msg_hi bot_reply)))
     = [(7, [msg_hi])]
   \<and> replyListeners (snd (handleMessage env0 ''message.create.contact.chat'' msg_hi bot_reply))
     = [\<lparr>rl_id = 1, rl_chatId = JStr ''c1'', rl_messageId = JStr ''m9'',
          rl_callback = Plain (UserFn 7)\<rparr>]"
  by (simp add: model_defs example_defs bot_reply_def)

text \<open>
  The condition on neighbours in the list is needed. The listeners of \<open>ask\<close> remove
  themselves while the \<open>forEach\<close> runs over the list, and the listener that follows moves
  to the index just visited: of two questions asked in one conversation, the answer
  reaches the first handler only, and the second listener stays registered.
\<close>

lemma second_ask_listener_is_skipped:
  "called Reply (trace (snd (handleMessage env0 ''message.create.contact.chat'' msg_hi bot_ask2)))
     = [(7, [msg_hi, fst (getActionsObject (JStr ''c1'') bot_ask2)])]
   \<and> map rl_id (replyListeners bot_ask2) = [1, 2]
   \<and> map rl_id (replyListeners
        (snd (handleMessage env0 ''message.create.contact.chat'' msg_hi bot_ask2))) = [2]"
  by (simp add: model_defs example_defs bot_ask2_def ask_sent_def)

subsection \<open>C3: the conditional matcher\<close>

lemma matcher_arr: "matcher E v (JArr ts) = list_ex (matcher E v) ts"
proof -
  have "\<And>acc. foldl (\<lambda>acc curr. if matcher E v curr then True else acc) acc ts
          = (acc \<or> list_ex (matcher E v) ts)"
    by (induction ts) auto
  then show ?thesis by simp
qed

lemma reducer_True:
  "\<not> nullish c \<Longrightarrow> \<not> nullish m \<Longrightarrow>
   reducer E c m conds True k = Inr (
       (truthy (field m k) \<and> matcher E (field m k) (field (JObj conds) k))
     \<or> (starts_at k \<and> matcher E (field c (strip_at k)) (field (JObj conds) k))
     \<or> (truthy (field c ''meta'') \<and> matcher E (field (field c ''meta'') k) (field (JObj conds) k)))"
  unfolding reducer_def meta_test_def get_prop_def
  by (cases "truthy (field c ''meta'')") (auto simp del: field.simps dest: truthy_not_nullish)

lemma reducer_False: "reducer E c m conds False k = Inr False"
  by (simp add: reducer_def)

lemma reduce_keys_all:
  assumes "\<not> nullish c" "\<not> nullish m"
  shows "reduce_keys E c m conds ks acc = Inr (acc \<and> list_all (\<lambda>k. 
       (truthy (field m k) \<and> matcher E (field m k) (field (JObj conds) k))
     \<or> (starts_at k \<and> matcher E (field c (strip_at k)) (field (JObj conds) k))
     \<or> (truthy (field c ''meta'') \<and> matcher E (field (field c ''meta'') k) (field (JObj conds) k))) ks)"
proof (induction ks arbitrary: acc)
  case Nil
  then show ?case by simp
next
  case (Cons k ks)
  show ?case
  proof (cases acc)
    case True
    then show ?thesis
      using reducer_True [OF assms, of E conds k] Cons.IH by (simp del: field.simps)
  next
    case False
    then show ?thesis
      using Cons.IH [of False] by (simp add: reducer_False)
  qed
qed

text \<open>
  C3, as amended. For a context and a message that are not \<open>undefined\<close> or \<open>null\<close>, \<open>match\<close>
  returns whether every key of the conditionals passes, and a key passes when the
  message's value for it is truthy and matches the expected value, or the key begins with
  \<open>@\<close> and the context's value for the key without the \<open>@\<close> matches, or the context has
  metadata whose value for the key matches. The locations are tried in this order, and a
  later one is tried whenever an earlier one did not pass, also when the earlier one holds
  a defined value. Matching is equality for a string, number or boolean expectation, any
  element for an array, and the test of the expression for a regular expression.
\<close>

theorem match_tries_each_location:
  assumes "\<not> nullish c" and "\<not> nullish m"
  shows "match E c m conditionals = Inr (list_all (\<lambda>k.
             (truthy (field m k) \<and> matcher E (field m k) (field (JObj conditionals) k))
           \<or> (starts_at k \<and> matcher E (field c (strip_at k)) (field (JObj conditionals) k))
           \<or> (truthy (field c ''meta'')
                \<and> matcher E (field (field c ''meta'') k) (field (JObj conditionals) k)))
          (object_keys conditionals))
       \<and> matcher E v (JStr s) = (v = JStr s)
       \<and> matcher E v (JNum n) = (v = JNum n)
       \<and> matcher E v (JBool t) = (v = JBool t)
       \<and> matcher E v (JArr ts) = list_ex (matcher E v) ts
       \<and> matcher E v (JRegExp src) = regexp_test E src v"
proof -
  have "match E c m conditionals = Inr (list_all (\<lambda>k.
             (truthy (field m k) \<and> matcher E (field m k) (field (JObj conditionals) k))
           \<or> (starts_at k \<and> matcher E (field c (strip_at k)) (field (JObj conditionals) k))
           \<or> (truthy (field c ''meta'')
                \<and> matcher E (field (field c ''meta'') k) (field (JObj conditionals) k)))
          (object_keys conditionals))"
  proof (cases "object_keys conditionals = []")
    case True
    then show ?thesis by (simp add: match_def)
  next
    case False
    then show ?thesis
      using reduce_keys_all [OF assms, of E conditionals "object_keys conditionals" True]
      by (simp add: match_def del: field.simps)
  qed
  with matcher_arr [of E v ts] show ?thesis by simp
qed

theorem match_tries_each_location_witness:
  "\<not> nullish ctx_contact \<and> \<not> nullish msg_agent
   \<and> match env0 ctx_contact msg_agent [(''role'', JArr [JStr ''bot'', JStr ''agent'']), (''text'', JRegExp ''/^hi/'')] = Inr True
   \<and> match env0 ctx_contact msg_agent [(''role'', JStr ''bot'')] = Inr False"
  using match_tries_each_location [of ctx_contact msg_agent env0 "[(''role'', JArr [JStr ''bot'', JStr ''agent'']), (''text'', JRegExp ''/^hi/'')]"]
        match_tries_each_location [of ctx_contact msg_agent env0 "[(''role'', JStr ''bot'')]"]
  by (simp add: ctx_contact_def msg_agent_def env0_def object_keys_def starts_at_def startsWith_def)

text \<open>
  C3 as stated fails: the message has the role \<open>agent\<close>, a defined value at the first
  location, which is not the expected \<open>contact\<close>; \<open>match\<close> goes on to the metadata of the
  context and accepts.
\<close>

theorem match_bypasses_defined_value:
  "spec_resolve ctx_contact msg_agent ''role'' = JStr ''agent''
   \<and> \<not> matcher env0 (spec_resolve ctx_contact msg_agent ''role'') (JStr ''contact'')
   \<and> match env0 ctx_contact msg_agent [(''role'', JStr ''contact'')] = Inr True"
  by (simp add: spec_resolve_def ctx_contact_def msg_agent_def model_defs)

subsection \<open>C4 and C5: what \<open>ingest\<close> rejects\<close>

text \<open>
  C4. For a payload without an \<open>event\<close> (no payload, no such field, or a falsy one), given
  with no signature or with the signature of the payload, \<open>ingest\<close> emits the one \<open>error\<close>
  signal for the missing event and does nothing else: the caches, the listeners and the
  rest of the bot are as before, no receive step has run and nothing else is emitted.
\<close>

theorem ingest_missing_event:
  assumes "\<not> truthy signature \<or> signature = JStr (getSignature E payload (secret b))"
      and "\<not> truthy payload \<or> \<not> truthy (field payload ''event'')"
  shows "ingest E payload signature b =
           (Inr None,
            b\<lparr>trace := trace b @
               [Emit ''error'' [JObj [(''type'', JStr ''ingest''),
                                      (''message'', JStr ''Invalid payload, missing event'')]]]\<rparr>)"
  using assms by (auto simp: ingest_def emit_def record_event_def strict_eq_JStr)

theorem ingest_missing_event_witness:
  "\<not> truthy JUndefined \<and> \<not> truthy (field (JObj [(''data'', JObj [])]) ''event'')
   \<and> ingest env0 (JObj [(''data'', JObj [])]) JUndefined bot1 =
       (Inr None,
        bot1\<lparr>trace := [Emit ''error'' [JObj [(''type'', JStr ''ingest''),
                    (''message'', JStr ''Invalid payload, missing event'')]]]\<rparr>)"
  using ingest_missing_event [of JUndefined env0 "JObj [(''data'', JObj [])]" bot1]
  by (simp add: example_defs object_prototype_def)

text \<open>
  C5. When a signature is given and is not the signature computed for the payload with the
  secret of the bot, \<open>ingest\<close> emits the \<open>error\<close> signal of the failed integrity check and
  does nothing else, whatever the payload is.
\<close>

theorem ingest_integrity_failure:
  assumes "truthy signature"
      and "signature \<noteq> JStr (getSignature E payload (secret b))"
  shows "ingest E payload signature b =
           (Inr None,
            b\<lparr>trace := trace b @
               [Emit ''error'' [JObj [(''type'', JStr ''ingest''),
                                      (''message'', JStr ''Message integrity check failed'')]]]\<rparr>)"
  using assms by (simp add: ingest_def emit_def record_event_def strict_eq_JStr)

theorem ingest_integrity_failure_witness:
  "truthy (JStr ''sha256=forged'')
   \<and> JStr ''sha256=forged'' \<noteq> JStr (getSignature env0 (payload_hi conv_c1) (secret bot1))
   \<and> ingest env0 (payload_hi conv_c1) (JStr ''sha256=forged'') bot1 =
       (Inr None,
        bot1\<lparr>trace := [Emit ''error'' [JObj [(''type'', JStr ''ingest''),
                    (''message'', JStr ''Message integrity check failed'')]]]\<rparr>)"
  using ingest_integrity_failure [of "JStr ''sha256=forged''" env0 "payload_hi conv_c1" bot1]
  by (simp add: example_defs)

subsection \<open>C6: the order of the text triggers\<close>

text \<open>
  The dispatch of a message that both of two text triggers match, in terms of what the
  calls of the two stored callbacks do.
\<close>

lemma handleMessage_two_triggers:
  assumes regs: "textRegexpCallbacks b = [A, B]"
      and q: "qualifies type message"
      and b1: "b1 = snd (getActionsObject (field message ''conversation'') b)"
      and ctx: "ctx = set_field ''captured'' (JBool True)
                        (fst (getActionsObject (field message ''conversation'') b))"
      and mA: "trigger_result E (tl_regexp A) (field message ''text'') = Inr True"
      and mB: "trigger_result E (tl_regexp B) (field message ''text'') = Inr True"
      and fA: "invoke E Trigger (tl_callback A) [message, ctx] b1 = (Inr (), bA)"
      and fB: "invoke E Trigger (tl_callback B) [message, ctx] bA = (Inr (), bB)"
  shows "handleMessage E type message b =
           after_triggers E type message ctx (if onlyFirstMatch b then bA else bB)"
proof -
  let ?ctx0 = "fst (getActionsObject (field message ''conversation'') b)"
  have fr1: "frame error_emit b b1" unfolding b1 by (rule frame_getActionsObject)
  have frA: "frame (\<lambda>ev. error_emit ev \<or> call_for Trigger ev) b1 bA"
    using frame_invoke [of Trigger b1 E "tl_callback A" "[message, ctx]"] fA by simp
  have frB: "frame (\<lambda>ev. error_emit ev \<or> call_for Trigger ev) bA bB"
    using frame_invoke [of Trigger bA E "tl_callback B" "[message, ctx]"] fB by simp
  have regs1: "textRegexpCallbacks b1 = [A, B]"
    using frame_textRegexpCallbacks [OF fr1] regs by simp
  have oA: "onlyFirstMatch bA = onlyFirstMatch b"
    using frame_onlyFirstMatch [OF frA] frame_onlyFirstMatch [OF fr1] by simp
  have oB: "onlyFirstMatch bB = onlyFirstMatch b"
    using frame_onlyFirstMatch [OF frB] oA by simp
  have cc: "set_field ''captured'' (JBool True) ctx = ctx"
    unfolding ctx by (rule set_field_twice)
  have rt: "run_triggers E message [A, B] ?ctx0 b1 =
              (Inr ctx, if onlyFirstMatch b then bA else bB)"
    using mA mB fA fB oA oB by (simp add: ctx [symmetric] cc)
  have gp: "get_prop message ''conversation'' = Inr (field message ''conversation'')"
    using qualifies_not_nullish [OF q] by (simp add: get_prop_def)
  show ?thesis
    using q gp rt regs1 by (simp add: handleMessage_def andThen_def eval_def ret_def b1 [symmetric])
qed

lemma frame_questionAsked: "frame P b (snd (questionAsked message ctx b))"
  by (simp add: questionAsked_state frame_refl)

lemma frame_after_triggers_kinds:
  "frame (\<lambda>ev. any_emit ev \<or> call_for Reply ev) b (snd (after_triggers E type message ctx b))"
  unfolding after_triggers_def
proof (rule frame_andThen [OF frame_questionAsked])
  fix asked b
  have g: "\<And>b. frame (\<lambda>ev. any_emit ev \<or> call_for Reply ev) b
                  (snd (generic_emission type message ctx b))"
    by (rule frame_weaken [OF frame_generic_emission]) simp
  have l: "\<And>b. frame (\<lambda>ev. any_emit ev \<or> call_for Reply ev) b
                  (snd (reply_loop E message (length (replyListeners b)) 0 False b))"
    by (rule frame_weaken [OF frame_reply_loop]) (auto dest: error_emit_any)
  show "frame (\<lambda>ev. any_emit ev \<or> call_for Reply ev) b
          (snd ((if truthy asked
                 then andThen (\<lambda>b. reply_loop E message (length (replyListeners b)) 0 False b)
                        (\<lambda>hasReplied. if \<not> hasReplied then generic_emission type message ctx else ret ())
                 else generic_emission type message ctx) b))"
  proof (cases "truthy asked")
    case False
    then show ?thesis by (simp add: g)
  next
    case True
    have "frame (\<lambda>ev. any_emit ev \<or> call_for Reply ev) b
            (snd (andThen (\<lambda>b. reply_loop E message (length (replyListeners b)) 0 False b)
                        (\<lambda>hasReplied. if \<not> hasReplied then generic_emission type message ctx else ret ()) b))"
      by (rule frame_andThen) (simp_all add: l g ret_def frame_refl)
    with True show ?thesis by simp
  qed
qed

lemma called_trigger_none:
  "list_all (\<lambda>ev. any_emit ev \<or> call_for Reply ev) evs \<Longrightarrow> called Trigger evs = []"
  by (induction Trigger evs rule: called.induct) auto

lemma invoke_accepting:
  assumes "cb = Plain (UserFn a)
           \<or> (\<exists>cs. cb = Conditional cs (UserFn a) \<and> match E ctx message cs = Inr True)"
  shows "invoke E Trigger cb [message, ctx] b = (Inr (), record_event (Call Trigger a [message, ctx]) b)"
  using assms by (auto simp: arg_def)

text \<open>
  C6, as amended. Let the text triggers be \<open>A\<close> and \<open>B\<close>, registered in this order, let both
  match the text of a qualifying message, and let each have been registered with a
  function as its handler, either without conditionals or with conditionals that accept
  the message. When "stop after first match" is off, the functions that \<open>_handleMessage\<close>
  calls for text triggers are the handler of \<open>A\<close> and then the handler of \<open>B\<close>; when it
  is on, the handler of \<open>A\<close> only. Each is called with the message and the captured
  actions object.
\<close>

theorem triggers_fire_in_registration_order:
  assumes regs: "textRegexpCallbacks b = [A, B]"
      and q: "qualifies type message"
      and ctx: "ctx = set_field ''captured'' (JBool True)
                        (fst (getActionsObject (field message ''conversation'') b))"
      and mA: "trigger_result E (tl_regexp A) (field message ''text'') = Inr True"
      and mB: "trigger_result E (tl_regexp B) (field message ''text'') = Inr True"
      and hA: "tl_callback A = Plain (UserFn fa)
               \<or> (\<exists>cs. tl_callback A = Conditional cs (UserFn fa)
                         \<and> match E ctx message cs = Inr True)"
      and hB: "tl_callback B = Plain (UserFn fb)
               \<or> (\<exists>cs. tl_callback B = Conditional cs (UserFn fb)
                         \<and> match E ctx message cs = Inr True)"
  shows "called Trigger (drop (length (trace b)) (trace (snd (handleMessage E type message b))))
           = (if onlyFirstMatch b then [(fa, [message, ctx])]
              else [(fa, [message, ctx]), (fb, [message, ctx])])"
proof -
  let ?b1 = "snd (getActionsObject (field message ''conversation'') b)"
  let ?bA = "record_event (Call Trigger fa [message, ctx]) ?b1"
  let ?bB = "record_event (Call Trigger fb [message, ctx]) ?bA"
  let ?bX = "if onlyFirstMatch b then ?bA else ?bB"
  have iA: "invoke E Trigger (tl_callback A) [message, ctx] ?b1 = (Inr (), ?bA)"
    by (rule invoke_accepting [OF hA])
  have iB: "invoke E Trigger (tl_callback B) [message, ctx] ?bA = (Inr (), ?bB)"
    by (rule invoke_accepting [OF hB])
  have hm: "handleMessage E type message b = after_triggers E type message ctx ?bX"
    by (rule handleMessage_two_triggers [OF regs q refl ctx mA mB iA iB])
  obtain errs where e: "trace ?b1 = trace b @ errs" "list_all error_emit errs"
    using frame_split [OF frame_getActionsObject] by blast
  obtain new where n: "trace (snd (after_triggers E type message ctx ?bX)) = trace ?bX @ new"
      "list_all (\<lambda>ev. any_emit ev \<or> call_for Reply ev) new"
    using frame_split [OF frame_after_triggers_kinds] by blast
  have "drop (length (trace b)) (trace (snd (handleMessage E type message b)))
          = errs @ (if onlyFirstMatch b then [Call Trigger fa [message, ctx]]
                    else [Call Trigger fa [message, ctx], Call Trigger fb [message, ctx]]) @ new"
    using e n hm by (simp add: record_event_def)
  then show ?thesis
    using called_errors [OF e(2), of Trigger] called_trigger_none [OF n(2)]
    by (simp add: called_append)
qed

theorem triggers_fire_in_registration_order_witness:
  "textRegexpCallbacks bot_two = [\<lparr>tl_regexp = JStr ''HI'', tl_callback = Plain (UserFn 1)\<rparr>,
                                  \<lparr>tl_regexp = JRegExp ''/^hi/'', tl_callback = Plain (UserFn 2)\<rparr>]
   \<and> textRegexpCallbacks (bot_gated ''contact'')
       = [\<lparr>tl_regexp = JStr ''hi'',
            tl_callback = Conditional [(''role'', JStr ''contact'')] (UserFn 1)\<rparr>,
          \<lparr>tl_regexp = JStr ''hi'', tl_callback = Plain (UserFn 2)\<rparr>]
   \<and> qualifies ''message.create.contact.chat'' msg_hi
   \<and> trigger_result env0 (JStr ''HI'') (field msg_hi ''text'') = Inr True
   \<and> trigger_result env0 (JRegExp ''/^hi/'') (field msg_hi ''text'') = Inr True
   \<and> trigger_result env0 (JStr ''hi'') (field msg_hi ''text'') = Inr True
   \<and> match env0 (set_field ''captured'' (JBool True) (fst (getActionsObject (JStr ''c1'') bot_two)))
        msg_hi [(''role'', JStr ''contact'')] = Inr True
   \<and> map fst (called Trigger
        (trace (snd (handleMessage env0 ''message.create.contact.chat'' msg_hi bot_two)))) = [1, 2]
   \<and> map fst (called Trigger
        (trace (snd (handleMessage env0 ''message.create.contact.chat'' msg_hi
                       (bot_two\<lparr>onlyFirstMatch := True\<rparr>))))) = [1]
   \<and> map fst (called Trigger
        (trace (snd (handleMessage env0 ''message.create.contact.chat'' msg_hi
                       (bot_gated ''contact''))))) = [1, 2]
   \<and> map fst (called Trigger
        (trace (snd (handleMessage env0 ''message.create.contact.chat'' msg_hi
                       ((bot_gated ''contact'')\<lparr>onlyFirstMatch := True\<rparr>))))) = [1]"
  using triggers_fire_in_registration_order
          [of "bot_two"
              "\<lparr>tl_regexp = JStr ''HI'', tl_callback = Plain (UserFn 1)\<rparr>"
              "\<lparr>tl_regexp = JRegExp ''/^hi/'', tl_callback = Plain (UserFn 2)\<rparr>"
              "''message.create.contact.chat''" msg_hi
              "set_field ''captured'' (JBool True) (fst (getActionsObject (field msg_hi ''conversation'') bot_two))"
              env0 1 2]
        triggers_fire_in_registration_order
          [of "(bot_gated ''contact'')\<lparr>onlyFirstMatch := True\<rparr>"
              "\<lparr>tl_regexp = JStr ''hi'',
                tl_callback = Conditional [(''role'', JStr ''contact'')] (UserFn 1)\<rparr>"
              "\<lparr>tl_regexp = JStr ''hi'', tl_callback = Plain (UserFn 2)\<rparr>"
              "''message.create.contact.chat''" msg_hi
              "set_field ''captured'' (JBool True)
                 (fst (getActionsObject (field msg_hi ''conversation'')
                         ((bot_gated ''contact'')\<lparr>onlyFirstMatch := True\<rparr>)))"
              env0 1 2]
  by (simp add: model_defs example_defs bot_two_def bot_gated_def upper_char_def)

text \<open>
  C6 as stated fails for a trigger that was registered with conditionals: the call goes
  to the wrapper of \<open>onText\<close>, which calls the handler only when the conditionals accept
  the message. With the trigger \<open>hi\<close> for agents registered before the trigger \<open>hi\<close>
  without conditionals, both match the text \<open>hi\<close> of a contact; with "stop after first
  match" off, only the handler of the second is called, and with it on, none is.
\<close>

theorem gated_trigger_handler_is_not_called:
  "map tl_regexp (textRegexpCallbacks (bot_gated ''agent'')) = [JStr ''hi'', JStr ''hi'']
   \<and> qualifies ''message.create.contact.chat'' msg_hi
   \<and> trigger_result env0 (JStr ''hi'') (field msg_hi ''text'') = Inr True
   \<and> map fst (called Trigger
        (trace (snd (handleMessage env0 ''message.create.contact.chat'' msg_hi
                       (bot_gated ''agent''))))) = [2]
   \<and> map fst (called Trigger
        (trace (snd (handleMessage env0 ''message.create.contact.chat'' msg_hi
                       ((bot_gated ''agent'')\<lparr>onlyFirstMatch := True\<rparr>))))) = []"
  by (simp add: model_defs example_defs bot_gated_def upper_char_def)

subsection \<open>C7: preloading the organization\<close>

lemma frame_top: "frame P b b' \<Longrightarrow> frame (\<lambda>ev. True) b b'"
  by (rule frame_weaken) simp_all

lemma frame_after_triggers: "frame (\<lambda>ev. True) b (snd (after_triggers E type message ctx b))"
  unfolding after_triggers_def
proof (rule frame_andThen [OF frame_questionAsked])
  fix asked b
  show "frame (\<lambda>ev. True) b
          (snd ((if truthy asked
                 then andThen (\<lambda>b. reply_loop E message (length (replyListeners b)) 0 False b)
                        (\<lambda>hasReplied. if \<not> hasReplied then generic_emission type message ctx else ret ())
                 else generic_emission type message ctx) b))"
  proof (cases "truthy asked")
    case False
    then show ?thesis by (simp add: frame_top [OF frame_generic_emission])
  next
    case True
    have "frame (\<lambda>ev. True) b
            (snd (andThen (\<lambda>b. reply_loop E message (length (replyListeners b)) 0 False b)
                        (\<lambda>hasReplied. if \<not> hasReplied then generic_emission type message ctx else ret ()) b))"
      by (rule frame_andThen)
         (simp_all add: frame_top [OF frame_reply_loop] frame_top [OF frame_generic_emission]
            ret_def frame_refl)
    with True show ?thesis by simp
  qed
qed

lemma frame_handleMessage: "frame (\<lambda>ev. True) b (snd (handleMessage E type message b))"
  unfolding handleMessage_def
proof (rule frame_andThen)
  fix b show "frame (\<lambda>ev. True) b (snd (eval (get_prop message ''conversation'') b))"
    by (simp add: eval_def frame_refl)
next
  fix convId b
  show "frame (\<lambda>ev. True) b
     (snd (andThen (\<lambda>b. ret (fst (getActionsObject convId b)) (snd (getActionsObject convId b)))
            (\<lambda>ctx. if qualifies type message
                   then andThen (\<lambda>b. run_triggers E message (textRegexpCallbacks b) ctx b)
                          (after_triggers E type message)
                   else generic_emission type message ctx) b))"
  proof (rule frame_andThen)
    fix b show "frame (\<lambda>ev. True) b
       (snd (ret (fst (getActionsObject convId b)) (snd (getActionsObject convId b))))"
      by (simp add: ret_def frame_top [OF frame_getActionsObject])
  next
    fix ctx b
    show "frame (\<lambda>ev. True) b
       (snd ((if qualifies type message
                   then andThen (\<lambda>b. run_triggers E message (textRegexpCallbacks b) ctx b)
                          (after_triggers E type message)
                   else generic_emission type message ctx) b))"
    proof (cases "qualifies type message")
      case False
      then show ?thesis by (simp add: frame_top [OF frame_generic_emission])
    next
      case True
      have "frame (\<lambda>ev. True) b
              (snd (andThen (\<lambda>b. run_triggers E message (textRegexpCallbacks b) ctx b)
                          (after_triggers E type message) b))"
        by (rule frame_andThen)
           (simp_all add: frame_top [OF frame_run_triggers] frame_after_triggers)
      with True show ?thesis by simp
    qed
  qed
qed

lemma frame_ignoreSelf: "frame (\<lambda>ev. True) b (snd (ignoreSelfMiddleware payload b))"
  by (simp add: ignoreSelfMiddleware_def emit_def frame_record_event frame_refl split: sum.splits)

lemma frame_ignoreBots: "frame (\<lambda>ev. True) b (snd (ignoreBotsMiddleware payload b))"
  by (simp add: ignoreBotsMiddleware_def emit_def frame_record_event frame_refl split: sum.splits)

lemma frame_run_step: "frame (\<lambda>ev. True) b (snd (run_step E s payload b))"
  by (cases s) (simp_all add: frame_ignoreSelf frame_ignoreBots frame_record_event)

lemma frame_run_steps: "frame (\<lambda>ev. True) b (snd (run_steps E ss payload b))"
proof (induction ss arbitrary: b)
  case Nil
  then show ?case by (simp add: frame_refl)
next
  case (Cons s ss)
  obtain r b1 where rs: "run_step E s payload b = (r, b1)"
    by (cases "run_step E s payload b")
  have f1: "frame (\<lambda>ev. True) b b1"
    using frame_run_step [of b E s payload] rs by simp
  have "frame (\<lambda>ev. True) b (snd (run_steps E ss payload b1))"
    by (rule frame_trans [OF f1 Cons.IH])
  with f1 rs show ?case
    by (simp split: sum.splits step_outcome.splits)
qed

lemma frame_handleEvent: "frame (\<lambda>ev. True) b (snd (handleEvent E type event b))"
  unfolding handleEvent_def
proof (rule frame_andThen)
  fix b show "frame (\<lambda>ev. True) b (snd (run_steps E (receive b) event b))"
    by (rule frame_run_steps)
next
  fix fin b
  show "frame (\<lambda>ev. True) b
         (snd ((case fin of
            None \<Rightarrow> ret ()
          | Some err \<Rightarrow>
              if truthy err then
                (\<lambda>b. ret () (emit ''error''
                   [JObj [(''type'', JStr ''middleware''),
                          (''message'', JStr (''middleware receive processing error:  '' @ to_string err))]] b))
              else
                andThen (eval (get_prop event ''activity''))
                  (\<lambda>activity.
                     andThen (\<lambda>b. ret () (emit ''activity'' [activity] b))
                       (\<lambda>u.
                          if startsWith type ''message'' \<and> truthy (field event ''data'')
                             \<and> truthy (field (field event ''data'') ''message'')
                          then handleMessage E type (field (field event ''data'') ''message'')
                          else (\<lambda>b. ret () (emit type [event] b))))) b))"
  proof (cases fin)
    case None
    then show ?thesis by (simp add: ret_def frame_refl)
  next
    case (Some err)
    show ?thesis
    proof (cases "truthy err")
      case True
      with Some show ?thesis by (simp add: ret_def emit_def frame_record_event)
    next
      case False
      have "frame (\<lambda>ev. True) b
              (snd (andThen (eval (get_prop event ''activity''))
                  (\<lambda>activity.
                     andThen (\<lambda>b. ret () (emit ''activity'' [activity] b))
                       (\<lambda>u.
                          if startsWith type ''message'' \<and> truthy (field event ''data'')
                             \<and> truthy (field (field event ''data'') ''message'')
                          then handleMessage E type (field (field event ''data'') ''message'')
                          else (\<lambda>b. ret () (emit type [event] b)))) b))"
        by (intro frame_andThen)
           (simp_all add: eval_def ret_def emit_def frame_refl frame_record_event frame_handleMessage)
      with Some False show ?thesis by simp
    qed
  qed
qed


text \<open>
  C7. For a message payload whose conversation has an organization that is not in the
  cache, on a bot that preloads organizations, \<open>ingest\<close> stores the conversation, starts the
  fetch and dispatches nothing. When the fetch succeeds with an organization, the
  organization is put in the cache and the event is dispatched from there (an error thrown
  by the dispatch ends in the same \<open>catch\<close>); the organization is in the cache afterwards.
  When the fetch fails, the one \<open>error\<close> signal is emitted and nothing else happens: the
  event is never dispatched.
\<close>

theorem preload_defers_dispatch:
  assumes sig: "\<not> truthy signature \<or> signature = JStr (getSignature E payload (secret b))"
      and ev: "field payload ''event'' = JStr type"
      and msg: "startsWith type ''message''"
      and conv: "truthy (field (field (field payload ''data'') ''conversation'') ''id'')"
      and pre: "preloadOrganizations b"
      and unc: "\<not> truthy (cache_get (organizations b)
                  (field (field (field payload ''data'') ''conversation'') ''organization''))"
  shows "ingest E payload signature b =
           (Inr (Some payload),
            record_event (Fetch (field (field (field payload ''data'') ''conversation'') ''organization''))
              (b\<lparr>conversations := cache_set (conversations b)
                    (field (field (field payload ''data'') ''conversation'') ''id'')
                    (field (field payload ''data'') ''conversation'')\<rparr>))
       \<and> (\<not> nullish org \<longrightarrow>
            settle E payload (Resolved org) s =
              (case handleEvent E type payload
                      (s\<lparr>organizations := cache_set (organizations s) (field org ''id'') org\<rparr>) of
                 (Inl e, s') \<Rightarrow> organization_failed payload (error_text e) s'
               | (Inr u, s') \<Rightarrow> s')
            \<and> organizations (settle E payload (Resolved org) s)
                = cache_set (organizations s) (field org ''id'') org)
       \<and> settle E payload (Rejected err) s =
           s\<lparr>trace := trace s @
              [Emit ''error'' [JObj [(''message'',
                  JStr (''Could not load organization ''
                        @ to_string (field (field (field payload ''data'') ''conversation'') ''organization'')
                        @ '': '' @ err))]]]\<rparr>"
proof -
  have t: "truthy (field payload ''event'')"
    using ev startsWith_nonempty [OF msg] by simp
  have tc: "truthy (field (field payload ''data'') ''conversation'')"
    using conv by (rule truthy_field)
  then have td: "truthy (field payload ''data'')" by (rule truthy_field)
  then have tp: "truthy payload" by (rule truthy_field)
  have 1: "ingest E payload signature b =
           (Inr (Some payload),
            record_event (Fetch (field (field (field payload ''data'') ''conversation'') ''organization''))
              (b\<lparr>conversations := cache_set (conversations b)
                    (field (field (field payload ''data'') ''conversation'') ''id'')
                    (field (field payload ''data'') ''conversation'')\<rparr>))"
    using sig t ev msg conv pre unc tc td tp
    by (auto simp: ingest_def strict_eq_JStr Let_def)
  have 2: "settle E payload (Resolved org) s =
              (case handleEvent E type payload
                      (s\<lparr>organizations := cache_set (organizations s) (field org ''id'') org\<rparr>) of
                 (Inl e, s') \<Rightarrow> organization_failed payload (error_text e) s'
               | (Inr u, s') \<Rightarrow> s')" if "\<not> nullish org"
    using that ev
    by (simp add: organization_loaded_def andThen_def eval_def ret_def get_prop_def)
  have 3: "organizations (settle E payload (Resolved org) s)
                = cache_set (organizations s) (field org ''id'') org" if "\<not> nullish org"
  proof -
    let ?s1 = "s\<lparr>organizations := cache_set (organizations s) (field org ''id'') org\<rparr>"
    have "organizations (snd (handleEvent E type payload ?s1)) = organizations ?s1"
      using frame_handleEvent by (rule frame_organizations)
    then show ?thesis
      unfolding 2 [OF that]
      by (cases "handleEvent E type payload ?s1")
         (auto simp: organization_failed_def emit_def record_event_def split: sum.splits)
  qed
  have 4: "settle E payload (Rejected err) s =
           s\<lparr>trace := trace s @
              [Emit ''error'' [JObj [(''message'',
                  JStr (''Could not load organization ''
                        @ to_string (field (field (field payload ''data'') ''conversation'') ''organization'')
                        @ '': '' @ err))]]]\<rparr>"
    by (simp add: organization_failed_def emit_def record_event_def)
  from 1 2 3 4 show ?thesis by blast
qed


theorem preload_defers_dispatch_witness:
  "ingest env0 (payload_hi conv_c1) JUndefined bot_preload = (Inr (Some (payload_hi conv_c1)), bot_fetching)
   \<and> emitted (trace (settle env0 (payload_hi conv_c1) (Resolved org_acme) bot_fetching))
       = [''activity'', ''message'', ''message.create.contact.chat'',
          ''message.create.contact.chat.contact'']
   \<and> organizations (settle env0 (payload_hi conv_c1) (Resolved org_acme) bot_fetching)
       = [(''o1'', org_acme)]
   \<and> settle env0 (payload_hi conv_c1) (Rejected ''Error: 404'') bot_fetching
       = bot_fetching\<lparr>trace := [Fetch (JStr ''o1''),
            Emit ''error'' [JObj [(''message'', JStr ''Could not load organization o1: Error: 404'')]]]\<rparr>"
proof -
  have h1: "\<not> truthy JUndefined
            \<or> JUndefined = JStr (getSignature env0 (payload_hi conv_c1) (secret bot_preload))"
    by simp
  have h2: "field (payload_hi conv_c1) ''event'' = JStr ''message.create.contact.chat''"
    by (simp add: payload_hi_def)
  have h3: "startsWith ''message.create.contact.chat'' ''message''"
    by (simp add: startsWith_def)
  have h4: "truthy (field (field (field (payload_hi conv_c1) ''data'') ''conversation'') ''id'')"
    by (simp add: payload_hi_def conv_c1_def)
  have h5: "preloadOrganizations bot_preload"
    by (simp add: bot_preload_def)
  have h6: "\<not> truthy (cache_get (organizations bot_preload)
              (field (field (field (payload_hi conv_c1) ''data'') ''conversation'') ''organization''))"
    by (simp add: bot_preload_def bot1_def cache_get_def object_prototype_def payload_hi_def
          conv_c1_def)
  note all = preload_defers_dispatch [OF h1 h2 h3 h4 h5 h6, of org_acme bot_fetching "''Error: 404''"]
  have n: "\<not> nullish org_acme" by (simp add: org_acme_def)
  have c1: "ingest env0 (payload_hi conv_c1) JUndefined bot_preload
              = (Inr (Some (payload_hi conv_c1)), bot_fetching)"
    using all [THEN conjunct1]
    by (simp add: payload_hi_def conv_c1_def bot_preload_def bot1_def bot_fetching_def
          cache_set_def record_event_def)
  have c2: "organizations (settle env0 (payload_hi conv_c1) (Resolved org_acme) bot_fetching)
       = [(''o1'', org_acme)]"
    using all [THEN conjunct2, THEN conjunct1, rule_format, OF n, THEN conjunct2]
    by (simp add: org_acme_def bot_fetching_def bot_preload_def bot1_def cache_set_def
          del: settle.simps)
  have c3: "settle env0 (payload_hi conv_c1) (Rejected ''Error: 404'') bot_fetching
       = bot_fetching\<lparr>trace := [Fetch (JStr ''o1''),
            Emit ''error'' [JObj [(''message'', JStr ''Could not load organization o1: Error: 404'')]]]\<rparr>"
    using all [THEN conjunct2, THEN conjunct2]
    by (simp add: payload_hi_def conv_c1_def bot_fetching_def)
  have c4: "emitted (trace (settle env0 (payload_hi conv_c1) (Resolved org_acme) bot_fetching))
       = [''activity'', ''message'', ''message.create.contact.chat'',
          ''message.create.contact.chat.contact'']"
    by (simp add: model_defs example_defs bot_fetching_def bot_preload_def org_acme_def
          organization_loaded_def organization_failed_def)
  from c1 c2 c3 c4 show ?thesis by simp
qed


subsection \<open>C8: an unknown conversation\<close>

text \<open>
  C8, what the code does. For a qualifying message whose conversation is missing or not in
  the cache, \<open>_getActionsObject\<close> emits the \<open>error\<close> signal and returns the empty object, as
  claimed, and \<open>_handleMessage\<close> then throws a type error: after the text triggers it calls
  \<open>ctx.get\<close>, which the empty object does not have. The dispatch of the message does not
  continue.
\<close>

theorem unknown_conversation_aborts_dispatch:
  assumes q: "qualifies type message"
      and unknown: "\<not> truthy (field message ''conversation'')
                    \<or> \<not> truthy (cache_get (conversations b) (field message ''conversation''))"
  shows "getActionsObject (field message ''conversation'') b =
           (JObj [],
            emit ''error''
              [JObj [(''message'',
                      JStr (''missing conv '' @ to_string (field message ''conversation'')))]] b)
       \<and> fst (handleMessage E type message b) = Inl TypeError"
proof -
  let ?conv = "field message ''conversation''"
  let ?b1 = "emit ''error'' [JObj [(''message'', JStr (''missing conv '' @ to_string ?conv))]] b"
  have gp: "get_prop message ''conversation'' = Inr ?conv"
    using qualifies_not_nullish [OF q] by (simp add: get_prop_def)
  have g: "getActionsObject ?conv b = (JObj [], ?b1)"
    by (rule getActionsObject_unknown [OF unknown])
  obtain rt b2 where rt: "run_triggers E message (textRegexpCallbacks ?b1) (JObj []) ?b1 = (rt, b2)"
    by (cases "run_triggers E message (textRegexpCallbacks ?b1) (JObj []) ?b1")
  have "fst (handleMessage E type message b) = Inl TypeError"
  proof (cases rt)
    case (Inl e)
    with q gp g rt show ?thesis
      by (simp add: handleMessage_def andThen_def eval_def ret_def error_is_TypeError [of e])
  next
    case (Inr ctx')
    with rt have "ctx' = JObj [] \<or> ctx' = set_field ''captured'' (JBool True) (JObj [])"
      by (auto dest: run_triggers_ctx)
    then have "field ctx' ''get'' = JUndefined" by (auto simp: object_prototype_def)
    then have "fst (questionAsked message ctx' b2) = Inl TypeError"
      by (simp add: questionAsked_def error_is_TypeError split: sum.splits)
    then have "fst (after_triggers E type message ctx' b2) = Inl TypeError"
      by (cases "questionAsked message ctx' b2")
         (simp add: after_triggers_def andThen_def)
    with q gp g rt Inr show ?thesis
      by (simp add: handleMessage_def andThen_def eval_def ret_def)
  qed
  with g show ?thesis by simp
qed

text \<open>The failing input: the chat message names \<open>c2\<close>, and the bot has seen \<open>c1\<close> only.\<close>

theorem unknown_conversation_aborts_dispatch_witness:
  "qualifies ''message.create.contact.chat'' msg_stray
   \<and> \<not> truthy (cache_get (conversations (bot1\<lparr>conversations := [(''c1'', conv_c1)]\<rparr>))
                  (field msg_stray ''conversation''))
   \<and> fst (getActionsObject (field msg_stray ''conversation'')
            (bot1\<lparr>conversations := [(''c1'', conv_c1)]\<rparr>)) = JObj []
   \<and> fst (handleMessage env0 ''message.create.contact.chat'' msg_stray
            (bot1\<lparr>conversations := [(''c1'', conv_c1)]\<rparr>)) = Inl TypeError"
proof -
  have h1: "qualifies ''message.create.contact.chat'' msg_stray"
    by (simp add: qualifies_def msg_stray_def)
  have h2: "\<not> truthy (cache_get (conversations (bot1\<lparr>conversations := [(''c1'', conv_c1)]\<rparr>))
                  (field msg_stray ''conversation''))"
    by (simp add: cache_get_def msg_stray_def object_prototype_def)
  from unknown_conversation_aborts_dispatch [OF h1 disjI2 [OF h2], of env0] h1 h2
  show ?thesis by simp
qed

text \<open>
  The same through \<open>ingest\<close>, for a payload of the conversation \<open>c1\<close> that carries this
  message: the \<open>activity\<close> event and the \<open>error\<close> signal are emitted, the type error is
  thrown, and no \<open>message\<close> event follows.
\<close>

lemma stray_message_ingest:
  "fst (ingest env0 payload_stray JUndefined bot1) = Inl TypeError
   \<and> trace (snd (ingest env0 payload_stray JUndefined bot1))
       = [Emit ''activity'' [JUndefined],
          Emit ''error'' [JObj [(''message'', JStr ''missing conv c2'')]]]"
  by (simp add: model_defs example_defs payload_stray_def msg_stray_def)

subsection \<open>C9: the organization of the actions object\<close>

text \<open>
  C9, what the code does. For a conversation in the cache, the \<open>organization\<close> of the
  actions object is what the organization cache holds at the key made from the
  conversation object, the text \<open>[object Object]\<close>, when that is truthy, and the
  conversation's own reference otherwise. The conversation's organization is not the key,
  so an organization cached under its id is not found.
\<close>

theorem actions_object_organization_lookup:
  assumes "truthy convId" and "cache_get (conversations b) convId = JObj kvs"
  shows "field (fst (getActionsObject convId b)) ''organization''
           = js_or (field (JObj (organizations b)) ''[object Object]'')
                   (field (JObj kvs) ''organization'')"
  using assms
  by (simp add: getActionsObject_def object_assign_def cache_get_def js_or_def update_conv')

text \<open>The failing input: the organization \<open>o1\<close> of the conversation \<open>c1\<close> is in the cache,
  and the actions object for \<open>c1\<close> has the reference \<open>o1\<close>, not the cached organization.\<close>

theorem actions_object_ignores_cached_organization:
  "truthy (JStr ''c1'')
   \<and> cache_get (conversations bot_org) (JStr ''c1'') = conv_c1
   \<and> cache_get (organizations bot_org) (field conv_c1 ''organization'') = org_acme
   \<and> field (fst (getActionsObject (JStr ''c1'') bot_org)) ''organization'' = JStr ''o1''"
proof -
  have h1: "truthy (JStr ''c1'')" by simp
  have h2: "cache_get (conversations bot_org) (JStr ''c1'')
              = JObj [(''id'', JStr ''c1''), (''organization'', JStr ''o1''), (''meta'', JObj [])]"
    by (simp add: cache_get_def bot_org_def conv_c1_def)
  have h3: "cache_get (organizations bot_org) (field conv_c1 ''organization'') = org_acme"
    by (simp add: cache_get_def bot_org_def conv_c1_def)
  from actions_object_organization_lookup [OF h1 h2] h2 h3
  show ?thesis by (simp add: bot_org_def js_or_def conv_c1_def object_prototype_def)
qed

subsection \<open>C10: a bot without identity\<close>

lemma boolean_or_True: "boolean_or v True = (v \<noteq> JBool False)"
  by (cases v) auto

lemma ignoreSelf_without_auth:
  assumes "auth b = JUndefined" and "field payload ''event'' = JStr type"
      and "startsWith type ''message''"
  shows "ignoreSelfMiddleware payload b = (Inl TypeError, b)"
proof -
  have "\<not> nullish payload" using assms(2) by (cases payload) simp_all
  moreover have "type \<noteq> []" using assms(3) by (rule startsWith_nonempty)
  ultimately show ?thesis
    using assms
    by (simp add: ignoreSelfMiddleware_def get_prop_def error_is_TypeError split: sum.splits)
qed

lemma handleEvent_without_auth:
  assumes "auth b = JUndefined" and "receive b = IgnoreSelf # rest"
      and "field payload ''event'' = JStr type" and "startsWith type ''message''"
  shows "handleEvent E type payload b = (Inl TypeError, b)"
  using assms ignoreSelf_without_auth [OF assms(1) assms(3) assms(4)]
  by (simp add: handleEvent_def andThen_def)

lemma handleMessage_without_auth:
  assumes noauth: "auth b = JUndefined" and q: "qualifies type message"
  shows "fst (handleMessage E type message b) = Inl TypeError"
proof -
  let ?conv = "field message ''conversation''"
  let ?ctx = "fst (getActionsObject ?conv b)"
  let ?b1 = "snd (getActionsObject ?conv b)"
  have gp: "get_prop message ''conversation'' = Inr ?conv"
    using qualifies_not_nullish [OF q] by (simp add: get_prop_def)
  obtain rt b2 where rt: "run_triggers E message (textRegexpCallbacks ?b1) ?ctx ?b1 = (rt, b2)"
    by (cases "run_triggers E message (textRegexpCallbacks ?b1) ?ctx ?b1")
  have "frame (\<lambda>ev. error_emit ev \<or> call_for Trigger ev) ?b1 b2"
    using frame_run_triggers [of ?b1 E message "textRegexpCallbacks ?b1" ?ctx] rt by simp
  then have "auth b2 = auth ?b1" by (rule frame_auth)
  also have "auth ?b1 = auth b" using frame_getActionsObject by (rule frame_auth)
  finally have a2: "auth b2 = JUndefined" using noauth by simp
  show ?thesis
  proof (cases rt)
    case (Inl e)
    with q gp rt show ?thesis
      by (simp add: handleMessage_def andThen_def eval_def ret_def error_is_TypeError [of e])
  next
    case (Inr ctx')
    have "questionAsked message ctx' b2 = (Inl TypeError, b2)"
      using a2 by (simp add: questionAsked_def get_prop_def)
    then have "fst (after_triggers E type message ctx' b2) = Inl TypeError"
      by (simp add: after_triggers_def andThen_def)
    with q gp rt Inr show ?thesis
      by (simp add: handleMessage_def andThen_def eval_def ret_def)
  qed
qed


text \<open>
  C10, as amended. A bot constructed without a token, or with one that does not decode,
  has no \<open>auth\<close>, and ignore-self is the first receive step unless it was switched off.
  For a bot without \<open>auth\<close>: with ignore-self first, \<open>ingest\<close> of a message payload that
  is dispatched at once (no fetch of the organization) throws a type error after storing
  the conversation, and emits nothing; when the dispatch follows a successful fetch, the
  type error is caught there and signalled as the \<open>error\<close> event of a failed load; and
  \<open>_handleMessage\<close> throws a type error for every qualifying message.
\<close>

theorem missing_token_makes_dispatch_throw:
  assumes tok: "\<not> truthy (opt_token opts) \<or> \<not> truthy (jwt_decode E (opt_token opts))"
      and noauth: "auth b = JUndefined"
  shows "(\<exists>b0. ChipChat E opts = Inr b0 \<and> auth b0 = JUndefined
            \<and> (opt_ignoreSelf opts \<noteq> JBool False \<longrightarrow> (\<exists>steps. receive b0 = IgnoreSelf # steps)))
       \<and> (receive b = IgnoreSelf # rest
            \<and> (\<not> truthy signature \<or> signature = JStr (getSignature E payload (secret b)))
            \<and> field payload ''event'' = JStr type \<and> startsWith type ''message''
            \<and> truthy (field (field (field payload ''data'') ''conversation'') ''id'')
            \<and> (preloadOrganizations b \<longrightarrow>
                  truthy (cache_get (organizations b)
                            (field (field (field payload ''data'') ''conversation'') ''organization'')))
          \<longrightarrow> ingest E payload signature b =
                (Inl TypeError,
                 b\<lparr>conversations := cache_set (conversations b)
                      (field (field (field payload ''data'') ''conversation'') ''id'')
                      (field (field payload ''data'') ''conversation'')\<rparr>))
       \<and> (receive b = IgnoreSelf # rest
            \<and> field payload ''event'' = JStr type \<and> startsWith type ''message'' \<and> \<not> nullish org
          \<longrightarrow> settle E payload (Resolved org) b =
                organization_failed payload ''TypeError''
                  (b\<lparr>organizations := cache_set (organizations b) (field org ''id'') org\<rparr>))
       \<and> (qualifies type' message \<longrightarrow> fst (handleMessage E type' message b) = Inl TypeError)"
proof -
  have 1: "\<exists>b0. ChipChat E opts = Inr b0 \<and> auth b0 = JUndefined
            \<and> (opt_ignoreSelf opts \<noteq> JBool False \<longrightarrow> (\<exists>steps. receive b0 = IgnoreSelf # steps))"
    using tok by (auto simp: ChipChat_def decode_auth_def boolean_or_True)
  have 2: "ingest E payload signature b =
                (Inl TypeError,
                 b\<lparr>conversations := cache_set (conversations b)
                      (field (field (field payload ''data'') ''conversation'') ''id'')
                      (field (field payload ''data'') ''conversation'')\<rparr>)"
    if r: "receive b = IgnoreSelf # rest"
      and sig: "\<not> truthy signature \<or> signature = JStr (getSignature E payload (secret b))"
      and ev: "field payload ''event'' = JStr type" and msg: "startsWith type ''message''"
      and conv: "truthy (field (field (field payload ''data'') ''conversation'') ''id'')"
      and sync: "preloadOrganizations b \<longrightarrow>
                  truthy (cache_get (organizations b)
                            (field (field (field payload ''data'') ''conversation'') ''organization''))"
  proof -
    let ?b1 = "b\<lparr>conversations := cache_set (conversations b)
                      (field (field (field payload ''data'') ''conversation'') ''id'')
                      (field (field payload ''data'') ''conversation'')\<rparr>"
    have t: "truthy (field payload ''event'')"
      using ev startsWith_nonempty [OF msg] by simp
    have tc: "truthy (field (field payload ''data'') ''conversation'')"
      using conv by (rule truthy_field)
    then have td: "truthy (field payload ''data'')" by (rule truthy_field)
    then have tp: "truthy payload" by (rule truthy_field)
    have he: "handleEvent E type payload ?b1 = (Inl TypeError, ?b1)"
      by (rule handleEvent_without_auth [where rest = rest]) (simp_all add: noauth r ev msg)
    show ?thesis
      using sig t ev msg conv sync tc td tp he
      by (auto simp: ingest_def strict_eq_JStr Let_def)
  qed
  have 3: "settle E payload (Resolved org) b =
                organization_failed payload ''TypeError''
                  (b\<lparr>organizations := cache_set (organizations b) (field org ''id'') org\<rparr>)"
    if r: "receive b = IgnoreSelf # rest"
      and ev: "field payload ''event'' = JStr type" and msg: "startsWith type ''message''"
      and org: "\<not> nullish org"
  proof -
    let ?b1 = "b\<lparr>organizations := cache_set (organizations b) (field org ''id'') org\<rparr>"
    have he: "handleEvent E type payload ?b1 = (Inl TypeError, ?b1)"
      by (rule handleEvent_without_auth [where rest = rest]) (simp_all add: noauth r ev msg)
    show ?thesis
      using org ev he
      by (simp add: organization_loaded_def andThen_def eval_def ret_def get_prop_def)
  qed
  have 4: "fst (handleMessage E type' message b) = Inl TypeError" if "qualifies type' message"
    using noauth that by (rule handleMessage_without_auth)
  from 1 2 3 4 show ?thesis by blast
qed


theorem missing_token_makes_dispatch_throw_witness:
  "\<not> truthy (opt_token opts_anon) \<and> auth bot_anon = JUndefined
   \<and> ChipChat env0 opts_anon = Inr bot_anon
   \<and> ingest env0 (payload_hi conv_c1) JUndefined bot_anon
       = (Inl TypeError, bot_anon\<lparr>conversations := [(''c1'', conv_c1)]\<rparr>)
   \<and> settle env0 (payload_hi conv_c1) (Resolved org_acme) bot_anon
       = organization_failed (payload_hi conv_c1) ''TypeError''
           (bot_anon\<lparr>organizations := [(''o1'', org_acme)]\<rparr>)
   \<and> qualifies ''message.create.contact.chat'' msg_hi
   \<and> fst (handleMessage env0 ''message.create.contact.chat'' msg_hi bot_anon) = Inl TypeError"
proof -
  have h1: "\<not> truthy (opt_token opts_anon) \<or> \<not> truthy (jwt_decode env0 (opt_token opts_anon))"
    by (simp add: opts_anon_def opts0_def)
  have h2: "auth bot_anon = JUndefined"
    by (simp add: bot_anon_def)
  note all = missing_token_makes_dispatch_throw [OF h1 h2, of "[IgnoreBots]" JUndefined "payload_hi conv_c1"
                    "''message.create.contact.chat''" org_acme
                    "''message.create.contact.chat''" msg_hi]
  have c1: "ChipChat env0 opts_anon = Inr bot_anon"
    using all [THEN conjunct1]
    by (simp add: ChipChat_def decode_auth_def js_or_def example_defs opts0_def opts_anon_def
          bot_anon_def)
  have c2: "ingest env0 (payload_hi conv_c1) JUndefined bot_anon
       = (Inl TypeError, bot_anon\<lparr>conversations := [(''c1'', conv_c1)]\<rparr>)"
    using all [THEN conjunct2, THEN conjunct1]
    by (simp add: example_defs bot_anon_def startsWith_def cache_set_def)
  have c3: "settle env0 (payload_hi conv_c1) (Resolved org_acme) bot_anon
       = organization_failed (payload_hi conv_c1) ''TypeError''
           (bot_anon\<lparr>organizations := [(''o1'', org_acme)]\<rparr>)"
    using all [THEN conjunct2, THEN conjunct2, THEN conjunct1]
    by (simp add: example_defs bot_anon_def startsWith_def cache_set_def org_acme_def)
  have q: "qualifies ''message.create.contact.chat'' msg_hi"
    by (simp add: qualifies_def msg_hi_def)
  have c4: "fst (handleMessage env0 ''message.create.contact.chat'' msg_hi bot_anon) = Inl TypeError"
    using all [THEN conjunct2, THEN conjunct2, THEN conjunct2] q by simp
  from h2 c1 c2 c3 q c4 show ?thesis
    by (simp add: opts_anon_def opts0_def)
qed

text \<open>
  C10 as stated fails when the organization is preloaded: the bot has no \<open>auth\<close>, the
  payload is a message, and its processing ends with an \<open>error\<close> event and no exception.
\<close>

theorem deferred_dispatch_signals_type_error:
  "ChipChat env0 opts_anon_preload = Inr bot_anon_preload
   \<and> auth bot_anon_preload = JUndefined
   \<and> ingest env0 (payload_hi conv_c1) JUndefined bot_anon_preload
       = (Inr (Some (payload_hi conv_c1)),
          bot_anon_preload\<lparr>conversations := [(''c1'', conv_c1)], trace := [Fetch (JStr ''o1'')]\<rparr>)
   \<and> emitted (trace (settle env0 (payload_hi conv_c1) (Resolved org_acme)
        (bot_anon_preload\<lparr>conversations := [(''c1'', conv_c1)], trace := [Fetch (JStr ''o1'')]\<rparr>)))
       = [''error'']"
  by (simp add: model_defs example_defs opts_anon_def bot_anon_def org_acme_def
        opts_anon_preload_def bot_anon_preload_def opts0_def ChipChat_def decode_auth_def
        organization_loaded_def organization_failed_def)

end
